theory Spec2Isabelle
  imports Complex_Main "HOL-Library.Word" "HOL-Library.Sublist"
begin

section \<open>JavaScript strings\<close>

text \<open>
  A JavaScript string is a sequence of UTF-16 code units. The em dash of the plan
  separator and the curly quotes of the reply template are single code units
  (U+2014, U+201C, U+201D). ASCII literals are written \<open>js ''...''\<close>.
\<close>

type_synonym code_unit = "16 word"
type_synonym jsstring = "code_unit list"

definition js :: "string \<Rightarrow> jsstring" where
  "js s = map of_char s"

definition nl :: code_unit where
  "nl = 0x0A"

definition em_dash :: code_unit where
  "em_dash = 0x2014"

definition ldquo :: code_unit where
  "ldquo = 0x201C"

definition rdquo :: code_unit where
  "rdquo = 0x201D"

text \<open>The separator of the name and the label in a plan line: space, U+2014, space.\<close>

definition dash_sep :: jsstring where
  "dash_sep = [0x20, em_dash, 0x20]"

text \<open>\<open>\d\<close> of a JavaScript regular expression: the ASCII digits only.\<close>

definition is_digit :: "code_unit \<Rightarrow> bool" where
  "is_digit c = (0x30 \<le> c \<and> c \<le> 0x39)"

text \<open>The code units removed by \<open>String.prototype.trim\<close>: WhiteSpace and LineTerminator.\<close>

definition is_space :: "code_unit \<Rightarrow> bool" where
  "is_space c =
     ((0x09 \<le> c \<and> c \<le> 0x0D) \<or> c = 0x20 \<or> c = 0xA0 \<or> c = 0x1680
      \<or> (0x2000 \<le> c \<and> c \<le> 0x200A) \<or> c = 0x2028 \<or> c = 0x2029
      \<or> c = 0x202F \<or> c = 0x205F \<or> c = 0x3000 \<or> c = 0xFEFF)"

definition trim :: "jsstring \<Rightarrow> jsstring" where
  "trim s = rev (dropWhile is_space (rev (dropWhile is_space s)))"

text \<open>
  \<open>s.split(sep)\<close> for a string separator: the occurrences of \<open>sep\<close> are found from
  left to right, each search starting after the previous occurrence. An empty separator
  splits into single code units.
\<close>

function split_go :: "jsstring \<Rightarrow> jsstring \<Rightarrow> jsstring list" where
  "split_go sep [] = [[]]"
| "split_go sep (c # cs) =
     (if sep \<noteq> [] \<and> prefix sep (c # cs)
      then [] # split_go sep (drop (length sep) (c # cs))
      else (case split_go sep cs of
              [] \<Rightarrow> [[c]]
            | p # ps \<Rightarrow> (c # p) # ps))"
  by pat_completeness auto
termination
  by (relation "measure (\<lambda>(sep, s). length s)") (auto simp: neq_Nil_conv)

definition split :: "jsstring \<Rightarrow> jsstring \<Rightarrow> jsstring list" where
  "split s sep = (if sep = [] then map (\<lambda>c. [c]) s else split_go sep s)"

text \<open>\<open>xs.join(sep)\<close>.\<close>

fun join :: "jsstring list \<Rightarrow> jsstring \<Rightarrow> jsstring" where
  "join [] sep = []"
| "join [x] sep = x"
| "join (x # y # ys) sep = x @ sep @ join (y # ys) sep"

text \<open>The decimal digits of a non-negative integer, as a template literal prints it.\<close>

fun digits :: "nat \<Rightarrow> jsstring" where
  "digits n =
     (if n < 10 then [0x30 + of_nat n]
      else digits (n div 10) @ [0x30 + of_nat (n mod 10)])"

text \<open>\<open>/1\./.test(s)\<close>: the two code units \<open>1.\<close> occur somewhere in \<open>s\<close>.\<close>

fun contains_sub :: "jsstring \<Rightarrow> jsstring \<Rightarrow> bool" where
  "contains_sub [] p = (p = [])"
| "contains_sub (c # cs) p = (prefix p (c # cs) \<or> contains_sub cs p)"

definition test_1dot :: "jsstring \<Rightarrow> bool" where
  "test_1dot s = contains_sub s (js ''1.'')"

text \<open>
  \<open>/^\d+\./.test(l)\<close>: \<open>l\<close> starts with one or more digits followed by a dot.
  \<open>after_digit\<close> is the matcher's state once a first digit has been read.
\<close>

fun after_digit :: "jsstring \<Rightarrow> bool" where
  "after_digit [] = False"
| "after_digit (c # cs) = (c = 0x2E \<or> (is_digit c \<and> after_digit cs))"

fun test_numbered :: "jsstring \<Rightarrow> bool" where
  "test_numbered [] = False"
| "test_numbered (c # cs) = (is_digit c \<and> after_digit cs)"

section \<open>Data model\<close>

datatype role = User | AI

record message =
  m_role :: role
  m_text :: jsstring

datatype status = Queued | Running | Complete

text \<open>
  A step object. \<open>progress\<close> and \<open>duration\<close> are absent on the steps the deriver and the
  default pipeline build, hence optional.
\<close>

record step =
  s_name :: jsstring
  s_status :: status
  s_llm :: jsstring
  s_progress :: "real option"
  s_duration :: "jsstring option"

section \<open>planReply\<close>

definition base :: "(jsstring \<times> jsstring) list" where
  "base =
     [(js ''Ingest Inputs'', js ''GPT-4''),
      (js ''Plan & Branch'', js ''Claude Sonnet 4.5''),
      (js ''Execute Tools'', js ''Kimi K2''),
      (js ''Verify & Report'', js ''GPT-4'')]"

text \<open>The template of one plan line: index plus one, dot, space, name, separator, label.\<close>

definition plan_line :: "nat \<Rightarrow> jsstring \<times> jsstring \<Rightarrow> jsstring" where
  "plan_line i s = digits (i + 1) @ js ''. '' @ fst s @ dash_sep @ snd s"

definition planReply :: "jsstring \<Rightarrow> jsstring" where
  "planReply text_in =
     js ''Here is a concise pipeline for '' @ [ldquo] @ text_in @ [rdquo] @ js '':'' @ [nl, nl]
     @ join (map (\<lambda>(i, s). plan_line i s) (enumerate 0 base)) [nl]
     @ [nl, nl] @ js ''You can start as-is or ask me to adjust steps/LLMs.''"

section \<open>derivePipeline\<close>

datatype js_error = TypeError

text \<open>
  The body of the \<open>lines.map\<close> callback. \<open>rest\<close> is the second element of
  \<open>l.split('. ')\<close>; when the split has one element only, \<open>rest\<close> is undefined and
  \<open>rest.split\<close> throws. \<open>llmPart || 'GPT-4'\<close> takes the default for an undefined and
  for an empty label.
\<close>

definition parse_line :: "jsstring \<Rightarrow> js_error + step" where
  "parse_line l =
     (case split l (js ''. '') of
        idxRest # rest # _ \<Rightarrow>
          (case split rest dash_sep of
             [] \<Rightarrow> Inl TypeError
           | namePart # parts \<Rightarrow>
               Inr \<lparr> s_name = trim namePart, s_status = Queued,
                     s_llm = trim (case parts of
                                     [] \<Rightarrow> js ''GPT-4''
                                   | llmPart # _ \<Rightarrow> if llmPart = [] then js ''GPT-4'' else llmPart),
                     s_progress = None, s_duration = None \<rparr>)
      | _ \<Rightarrow> Inl TypeError)"

text \<open>\<open>lines.map(...)\<close>: the first line whose callback throws ends the call.\<close>

fun map_lines :: "jsstring list \<Rightarrow> js_error + step list" where
  "map_lines [] = Inr []"
| "map_lines (l # ls) =
     (case parse_line l of
        Inl e \<Rightarrow> Inl e
      | Inr s \<Rightarrow> (case map_lines ls of Inl e \<Rightarrow> Inl e | Inr ss \<Rightarrow> Inr (s # ss)))"

text \<open>\<open>if (steps.length) steps[0].status = 'running'\<close>.\<close>

fun start_first :: "step list \<Rightarrow> step list" where
  "start_first [] = []"
| "start_first (s # ss) = s\<lparr>s_status := Running\<rparr> # ss"

text \<open>The result is an error, \<open>None\<close> for \<open>undefined\<close>, or the step array.\<close>

definition derivePipeline :: "message list \<Rightarrow> js_error + step list option" where
  "derivePipeline messages =
     (case find (\<lambda>m. m_role m = AI \<and> test_1dot (m_text m)) (rev messages) of
        None \<Rightarrow> Inr None
      | Some lastPlan \<Rightarrow>
          (case map_lines (filter test_numbered (split (m_text lastPlan) [nl])) of
             Inl e \<Rightarrow> Inl e
           | Inr steps \<Rightarrow> Inr (Some (start_first steps))))"

section \<open>Numbers\<close>

text \<open>
  A JavaScript number is an IEEE 754 binary64 value. The finite ones are modelled as the
  reals they denote, and a sum or product is the exact result rounded to the nearest
  binary64 value, a tie going to the even significand: \<open>round64\<close>, with a significand
  of 53 bits and the subnormal spacing \<open>2^-1074\<close> at the bottom. \<open>expo x\<close> is the binary
  exponent of a positive \<open>x\<close> (\<open>2 ^ expo x \<le> x < 2 ^ (expo x + 1)\<close>). Infinities and
  NaN are left out: no progress value of the application is one, and a sum that would
  overflow is capped by \<open>Math.min(100, ...)\<close> in the code as in the model.
\<close>

text \<open>The number of binary digits of a natural number.\<close>

fun bit_length :: "nat \<Rightarrow> nat" where
  "bit_length n = (if n = 0 then 0 else Suc (bit_length (n div 2)))"

declare bit_length.simps [simp del]

text \<open>\<open>2 ^ e\<close> for an integer exponent.\<close>

definition pow2 :: "int \<Rightarrow> real" where
  "pow2 e = (if 0 \<le> e then 2 ^ nat e else 1 / 2 ^ nat (- e))"

definition expo :: "real \<Rightarrow> int" where
  "expo x =
     (if 1 \<le> x then int (bit_length (nat \<lfloor>x\<rfloor>)) - 1
      else - int (bit_length (nat (\<lceil>1 / x\<rceil> - 1))))"

text \<open>The nearest integer, a tie going to the even one.\<close>

definition round_even :: "real \<Rightarrow> int" where
  "round_even x =
     (let f = \<lfloor>x\<rfloor>; d = x - of_int f
      in if d < 1 / 2 then f else if d > 1 / 2 then f + 1 else if even f then f else f + 1)"

definition round64 :: "real \<Rightarrow> real" where
  "round64 x =
     (if x = 0 then 0
      else (let q = max (expo \<bar>x\<bar> - 52) (- 1074)
            in sgn x * (of_int (round_even (\<bar>x\<bar> / pow2 q)) * pow2 q)))"

text \<open>\<open>x + y\<close> and \<open>x * y\<close> on numbers.\<close>

definition fadd :: "real \<Rightarrow> real \<Rightarrow> real" where
  "fadd x y = round64 (x + y)"

definition fmul :: "real \<Rightarrow> real \<Rightarrow> real" where
  "fmul x y = round64 (x * y)"

text \<open>\<open>x - y\<close> and \<open>x / y\<close> on numbers.\<close>

definition fsub :: "real \<Rightarrow> real \<Rightarrow> real" where
  "fsub x y = round64 (x - y)"

definition fdiv :: "real \<Rightarrow> real \<Rightarrow> real" where
  "fdiv x y = round64 (x / y)"

section \<open>The environment: random numbers, the clock, the identifier counter\<close>

text \<open>
  \<open>Math.random()\<close> and \<open>Date.now()\<close> are read from injected sequences, each call
  taking the next element (the random numbers are binary64 numbers of \<open>[0, 1)\<close>); \<open>idCounter\<close> is the module's counter. Timestamps are
  milliseconds since the epoch: \<open>new Date(iso).getTime()\<close> gives back the milliseconds
  \<open>toISOString\<close> printed. The counter is an unbounded integer.
\<close>

record world =
  rnd :: "nat \<Rightarrow> real"
  rnd_pos :: nat
  clock :: "nat \<Rightarrow> int"
  clock_pos :: nat
  idCounter :: int

definition math_random :: "world \<Rightarrow> real \<times> world" where
  "math_random w = (rnd w (rnd_pos w), w\<lparr>rnd_pos := Suc (rnd_pos w)\<rparr>)"

definition date_now :: "world \<Rightarrow> int \<times> world" where
  "date_now w = (clock w (clock_pos w), w\<lparr>clock_pos := Suc (clock_pos w)\<rparr>)"

text \<open>\<open>Math.round\<close>: the nearest integer, a tie going up.\<close>

definition math_round :: "real \<Rightarrow> int" where
  "math_round x = \<lfloor>x + 1 / 2\<rfloor>"

text \<open>
  \<open>sec\<close> is the integer \<open>Math.max(0, Math.round((now - s) / 1000))\<close>;
  \<open>Math.floor(sec/60)\<close> and \<open>sec % 60\<close> give the minutes and the seconds left.
\<close>

definition calcDuration :: "int \<Rightarrow> world \<Rightarrow> jsstring \<times> world" where
  "calcDuration start w =
     (let (now, w') = date_now w;
          sec = nat (max 0 (math_round (fdiv (fsub (of_int now) (of_int start)) 1000)))
      in (if sec < 60 then digits sec @ js ''s''
          else digits (nat \<lfloor>fdiv (real sec) 60\<rfloor>) @ js ''m '' @ digits (sec mod 60) @ js ''s'', w'))"

section \<open>Tasks and makeTask\<close>

record task =
  t_id :: int
  t_name :: jsstring
  t_status :: status
  t_progress :: real
  t_user :: jsstring
  t_llm :: jsstring
  t_startTime :: int
  t_duration :: "jsstring option"
  t_steps :: "step list"

definition default_pipeline :: "step list" where
  "default_pipeline =
     [\<lparr> s_name = js ''Ingest Requirements'', s_status = Running, s_llm = js ''GPT-4'',
         s_progress = Some 15, s_duration = None \<rparr>,
      \<lparr> s_name = js ''Spec Synthesis'', s_status = Queued, s_llm = js ''Claude Sonnet 4.5'',
         s_progress = None, s_duration = None \<rparr>,
      \<lparr> s_name = js ''Ops Plan + Checks'', s_status = Queued, s_llm = js ''Kimi K2'',
         s_progress = None, s_duration = None \<rparr>,
      \<lparr> s_name = js ''Execution & Verify'', s_status = Queued, s_llm = js ''GPT-4'',
         s_progress = None, s_duration = None \<rparr>]"

text \<open>\<open>a || b\<close> on strings: \<open>b\<close> when \<open>a\<close> is undefined or empty.\<close>

fun or_str :: "jsstring option \<Rightarrow> jsstring \<Rightarrow> jsstring" where
  "or_str None d = d"
| "or_str (Some a) d = (if a = [] then d else a)"

text \<open>\<open>a || b\<close> on numbers: \<open>b\<close> when \<open>a\<close> is undefined or zero.\<close>

fun or_num :: "real option \<Rightarrow> real \<Rightarrow> real" where
  "or_num None d = d"
| "or_num (Some a) d = (if a = 0 then d else a)"

text \<open>
  \<open>steps || [...]\<close>: an array, also an empty one, is truthy; only a missing argument
  takes the default pipeline.
\<close>

definition makeTask :: "jsstring \<Rightarrow> jsstring option \<Rightarrow> step list option \<Rightarrow> world \<Rightarrow> task \<times> world" where
  "makeTask name user steps w =
     (let (start, w1) = date_now w;
          pipeline = (case steps of None \<Rightarrow> default_pipeline | Some ss \<Rightarrow> ss);
          w2 = w1\<lparr>idCounter := idCounter w1 + 1\<rparr>
      in (\<lparr> t_id = idCounter w2,
            t_name = name,
            t_status = Running,
            t_progress = 5,
            t_user = or_str user (js ''You''),
            t_llm = or_str (map_option s_llm (find (\<lambda>s. s_status s = Running) pipeline)) (js ''GPT-4''),
            t_startTime = start,
            t_duration = Some (js ''0s''),
            t_steps = pipeline \<rparr>, w2))"

section \<open>The simulation tick\<close>

text \<open>
  The callback of \<open>task.steps.map\<close>. \<open>progress'\<close> is the task's progress already
  incremented in this tick. The random number of the queued branch is drawn only when
  the first two conjuncts hold. The literal \<open>0.7\<close> is the binary64 number next below
  7/10, and no binary64 number lies between the two, so a number the random source
  returns exceeds the one exactly when it exceeds the other.
\<close>

definition tick_step :: "int \<Rightarrow> real \<Rightarrow> step \<Rightarrow> world \<Rightarrow> step \<times> world" where
  "tick_step startTime progress' s w =
     (if s_status s = Running then
        (let (r, w1) = math_random w;
             sp = min 100 (fadd (or_num (s_progress s) 0) (fmul r 10));
             nextStatus = (if sp \<ge> 100 then Complete else Running);
             (d, w2) = calcDuration startTime w1
         in (s\<lparr>s_progress := Some sp, s_status := nextStatus, s_duration := Some d\<rparr>, w2))
      else if s_status s = Queued \<and> progress' > 10 then
        (let (r, w1) = math_random w
         in if r > 7 / 10 then
              (let (d, w2) = calcDuration startTime w1
               in (s\<lparr>s_status := Running, s_progress := Some (or_num (s_progress s) 5),
                     s_duration := Some d\<rparr>, w2))
            else (s, w1))
      else (s, w))"

fun tick_steps :: "int \<Rightarrow> real \<Rightarrow> step list \<Rightarrow> world \<Rightarrow> step list \<times> world" where
  "tick_steps startTime progress' [] w = ([], w)"
| "tick_steps startTime progress' (s # ss) w =
     (let (s', w1) = tick_step startTime progress' s w;
          (ss', w2) = tick_steps startTime progress' ss w1
      in (s' # ss', w2))"

text \<open>The callback of \<open>prev.map\<close>: one task, one tick.\<close>

definition tick_task :: "task \<Rightarrow> world \<Rightarrow> task \<times> world" where
  "tick_task t w =
     (if t_status t \<noteq> Running then (t, w)
      else
        (let (r, w1) = math_random w;
             progress' = min 100 (fadd (t_progress t) (fmul r 6));
             (steps, w2) = tick_steps (t_startTime t) progress' (t_steps t) w1;
             complete = (list_all (\<lambda>s. s_status s = Complete) steps \<or> progress' \<ge> 100);
             (d, w3) = calcDuration (t_startTime t) w2
         in (t\<lparr>t_progress := (if complete then 100 else progress'),
               t_status := (if complete then Complete else Running),
               t_steps := steps,
               t_duration := Some d\<rparr>, w3)))"

text \<open>One tick of the whole collection, and \<open>n\<close> ticks in a row.\<close>

fun tick :: "task list \<Rightarrow> world \<Rightarrow> task list \<times> world" where
  "tick [] w = ([], w)"
| "tick (t # ts) w =
     (let (t', w1) = tick_task t w;
          (ts', w2) = tick ts w1
      in (t' # ts', w2))"

fun ticks :: "nat \<Rightarrow> task list \<Rightarrow> world \<Rightarrow> task list \<times> world" where
  "ticks 0 ts w = (ts, w)"
| "ticks (Suc n) ts w = (let (ts', w') = tick ts w in ticks n ts' w')"

text \<open>The three tasks the application starts with; \<open>ago(min)\<close> is \<open>now - min * 60000\<close>.\<close>

definition seedTasks :: "world \<Rightarrow> task list \<times> world" where
  "seedTasks w =
     (let (now, w') = date_now w
      in ([\<lparr> t_id = 1, t_name = js ''Reconcile Q3 Invoices'', t_status = Running, t_progress = 42,
              t_user = js ''You'', t_llm = js ''GPT-4'', t_startTime = now - 5 * 60000,
              t_duration = Some (js ''5m 0s''),
              t_steps =
                [\<lparr> s_name = js ''Parse PDFs'', s_status = Complete, s_llm = js ''GPT-4'',
                    s_progress = Some 100, s_duration = Some (js ''2m 10s'') \<rparr>,
                 \<lparr> s_name = js ''Vendor Matching'', s_status = Running, s_llm = js ''Claude Sonnet 4.5'',
                    s_progress = Some 35, s_duration = Some (js ''1m 10s'') \<rparr>,
                 \<lparr> s_name = js ''Anomaly Check'', s_status = Queued, s_llm = js ''Kimi K2'',
                    s_progress = None, s_duration = None \<rparr>,
                 \<lparr> s_name = js ''Ledger Update'', s_status = Queued, s_llm = js ''GPT-4'',
                    s_progress = None, s_duration = None \<rparr>] \<rparr>,
           \<lparr> t_id = 2, t_name = js ''Procurement: Monitor RFP replies'', t_status = Queued,
              t_progress = 0, t_user = js ''Ava'', t_llm = js ''Claude Sonnet 4.5'',
              t_startTime = now - 1 * 60000, t_duration = None,
              t_steps =
                [\<lparr> s_name = js ''Collect Emails'', s_status = Queued, s_llm = js ''Kimi K2'',
                    s_progress = None, s_duration = None \<rparr>,
                 \<lparr> s_name = js ''Summarize Replies'', s_status = Queued, s_llm = js ''GPT-4'',
                    s_progress = None, s_duration = None \<rparr>,
                 \<lparr> s_name = js ''Score Vendors'', s_status = Queued, s_llm = js ''Claude Sonnet 4.5'',
                    s_progress = None, s_duration = None \<rparr>] \<rparr>,
           \<lparr> t_id = 3, t_name = js ''IT: Access Review Batch'', t_status = Complete,
              t_progress = 100, t_user = js ''Ben'', t_llm = js ''Kimi K2'',
              t_startTime = now - 45 * 60000, t_duration = Some (js ''12m 14s''),
              t_steps =
                [\<lparr> s_name = js ''Export Accounts'', s_status = Complete, s_llm = js ''GPT-4'',
                    s_progress = Some 100, s_duration = Some (js ''3m 00s'') \<rparr>,
                 \<lparr> s_name = js ''Policy Diff'', s_status = Complete, s_llm = js ''Claude Sonnet 4.5'',
                    s_progress = Some 100, s_duration = Some (js ''4m 40s'') \<rparr>,
                 \<lparr> s_name = js ''Notify Owners'', s_status = Complete, s_llm = js ''Kimi K2'',
                    s_progress = Some 100, s_duration = Some (js ''4m 34s'') \<rparr>] \<rparr>], w'))"

section \<open>Sample environments\<close>

text \<open>
  An environment whose random source always returns \<open>r\<close> and whose clock always
  reads \<open>now\<close>, with the counter at its initial value 1000.
\<close>

definition const_world :: "real \<Rightarrow> int \<Rightarrow> world" where
  "const_world r now =
     \<lparr> rnd = (\<lambda>i. r), rnd_pos = 0, clock = (\<lambda>i. now), clock_pos = 0, idCounter = 1000 \<rparr>"

section \<open>Progress bounds\<close>

text \<open>A progress value that is set lies between 0 and 100; the random source returns numbers of \<open>[0, 1)\<close>.\<close>

definition step_in_range :: "step \<Rightarrow> bool" where
  "step_in_range s = (case s_progress s of None \<Rightarrow> True | Some p \<Rightarrow> 0 \<le> p \<and> p \<le> 100)"

definition task_in_range :: "task \<Rightarrow> bool" where
  "task_in_range t = (0 \<le> t_progress t \<and> t_progress t \<le> 100 \<and> list_all step_in_range (t_steps t))"

abbreviation unit_source :: "world \<Rightarrow> bool" where
  "unit_source w \<equiv> \<forall>i. 0 \<le> rnd w i \<and> rnd w i < 1"

section \<open>The deriver in the specification's words\<close>

text \<open>
  The parse of one message text as the specification words it (section 4.3), for
  comparison with the code: a line matches \<open><integer>. <rest>\<close> when it starts with one
  or more digits, a dot and a space; the rest is split at the first separator into a
  name and a label, the label defaulting to \<open>GPT-4\<close> when the separator is absent; both
  parts are trimmed; the steps are queued and the first is then set running.
\<close>

definition spec_line_rest :: "jsstring \<Rightarrow> jsstring option" where
  "spec_line_rest l =
     (if takeWhile is_digit l \<noteq> [] \<and> prefix (js ''. '') (dropWhile is_digit l)
      then Some (drop 2 (dropWhile is_digit l)) else None)"

definition spec_step_of_rest :: "jsstring \<Rightarrow> step" where
  "spec_step_of_rest r =
     (case split r dash_sep of
        n # l # ls \<Rightarrow>
          \<lparr> s_name = trim n, s_status = Queued, s_llm = trim (join (l # ls) dash_sep),
             s_progress = None, s_duration = None \<rparr>
      | _ \<Rightarrow>
          \<lparr> s_name = trim r, s_status = Queued, s_llm = js ''GPT-4'',
             s_progress = None, s_duration = None \<rparr>)"

definition spec_derive_text :: "jsstring \<Rightarrow> step list" where
  "spec_derive_text t =
     start_first (map spec_step_of_rest (List.map_filter spec_line_rest (split t [nl])))"

section \<open>Rounding to binary64\<close>

text \<open>
  The exponent brackets its argument, rounding keeps the order of non-negative numbers,
  and a random number of \<open>[0, 1)\<close> times 6 or 10 is a number of \<open>[0, 6]\<close> or
  \<open>[0, 10]\<close>.
\<close>

lemmas number_eval = fadd_def fmul_def fsub_def fdiv_def round64_def round_even_def expo_def
  pow2_def bit_length.simps Let_def

lemma bit_length_bounds:
  "0 < n \<Longrightarrow> 2 ^ (bit_length n - 1) \<le> n \<and> n < 2 ^ bit_length n"
proof (induction n rule: bit_length.induct)
  case (1 n)
  show ?case
  proof (cases "n div 2 = 0")
    case True
    with "1.prems" have "n = 1"
      by (simp add: div_eq_0_iff) 
    then show ?thesis
      by (simp add: bit_length.simps)
  next
    case False
    then have pos: "0 < n div 2"
      by simp
    from "1.prems" have ne: "n \<noteq> 0"
      by simp
    have IH: "2 ^ (bit_length (n div 2) - 1) \<le> n div 2 \<and> n div 2 < 2 ^ bit_length (n div 2)"
      using "1.IH" [OF ne pos] .
    have bl: "bit_length n = Suc (bit_length (n div 2))"
      using ne by (subst bit_length.simps) simp
    have "0 < bit_length (n div 2)"
      using pos by (subst bit_length.simps) simp
    then obtain k where k: "bit_length (n div 2) = Suc k"
      by (cases "bit_length (n div 2)") simp_all
    define P :: nat where "P = 2 ^ k"
    from IH have "P \<le> n div 2" "n div 2 < 2 * P"
      unfolding k P_def by simp_all
    then have "2 * P \<le> n" "n < 2 * (2 * P)"
      by arith+
    then show ?thesis
      unfolding bl k P_def by simp
  qed
qed

lemma pow2_powr: "pow2 e = 2 powr (real_of_int e)"
proof (cases "0 \<le> e")
  case True
  then show ?thesis
    by (simp add: pow2_def powr_realpow [symmetric])
next
  case False
  then have r: "real (nat (- e)) = - real_of_int e"
    by simp
  have "(2::real) ^ nat (- e) = 2 powr (real (nat (- e)))"
    by (simp add: powr_realpow)
  then have "(2::real) ^ nat (- e) = 2 powr (- real_of_int e)"
    unfolding r .
  with False show ?thesis
    by (simp add: pow2_def powr_minus_divide)
qed

lemma pow2_pos: "0 < pow2 e"
  by (simp add: pow2_powr)

lemma pow2_add: "pow2 (a + b) = pow2 a * pow2 b"
  by (simp add: pow2_powr powr_add)

lemma pow2_mono: "a \<le> b \<Longrightarrow> pow2 a \<le> pow2 b"
  by (simp add: pow2_powr)

lemma pow2_nat: "pow2 (int n) = 2 ^ n"
  by (simp add: pow2_def)

lemma expo_bounds:
  assumes "0 < x"
  shows "pow2 (expo x) \<le> x \<and> x < pow2 (expo x + 1)"
proof (cases "1 \<le> x")
  case True
  define n where "n = nat \<lfloor>x\<rfloor>"
  have fl: "1 \<le> \<lfloor>x\<rfloor>"
    using True by linarith
  have n: "0 < n" "real n \<le> x" "x < real n + 1"
  proof -
    show "0 < n"
      using fl by (simp add: n_def)
    have "real n = of_int \<lfloor>x\<rfloor>"
      using fl by (simp add: n_def)
    then show "real n \<le> x" "x < real n + 1"
      by linarith+
  qed
  obtain k where k: "bit_length n = Suc k"
    using bit_length_bounds [OF n(1)] n(1) by (cases "bit_length n") simp_all
  have b: "2 ^ k \<le> n" "n < 2 ^ Suc k"
    using bit_length_bounds [OF n(1)] unfolding k by simp_all
  have e: "expo x = int k"
    using True by (simp add: expo_def n_def [symmetric] k)
  have "Suc n \<le> 2 ^ Suc k"
    using b(2) by simp
  then have r2: "real n + 1 \<le> 2 ^ Suc k"
    using of_nat_mono [of "Suc n" "2 ^ Suc k", where ?'a = real] by simp
  have r1: "(2::real) ^ k \<le> real n"
    using of_nat_mono [OF b(1), where ?'a = real] by simp
  have "(2::real) ^ k \<le> x" "x < 2 ^ Suc k"
    using n r1 r2 by linarith+
  moreover have "pow2 (int k + 1) = 2 ^ Suc k"
    using pow2_nat [of "Suc k"] by (simp add: add.commute)
  ultimately show ?thesis
    unfolding e by (simp add: pow2_nat)
next
  case False
  with assms have x: "0 < x" "x < 1"
    by simp_all
  then have inv: "1 < 1 / x"
    by simp
  define c where "c = \<lceil>1 / x\<rceil>"
  define n where "n = nat (c - 1)"
  have cb: "real_of_int c - 1 < 1 / x" "1 / x \<le> real_of_int c"
    unfolding c_def by linarith+
  have c: "2 \<le> c"
    using inv cb by linarith
  have rn: "real n = real_of_int c - 1"
    using c unfolding n_def by simp
  have n: "0 < n" "real n < 1 / x" "1 / x \<le> real n + 1"
    using c cb rn by (simp_all add: n_def)
  obtain k where k: "bit_length n = Suc k"
    using bit_length_bounds [OF n(1)] n(1) by (cases "bit_length n") simp_all
  have b: "2 ^ k \<le> n" "n < 2 ^ Suc k"
    using bit_length_bounds [OF n(1)] unfolding k by simp_all
  have e: "expo x = - int (Suc k)"
    using False by (simp add: expo_def c_def [symmetric] n_def [symmetric] k)
  have "Suc n \<le> 2 ^ Suc k"
    using b(2) by simp
  then have r2: "real n + 1 \<le> 2 ^ Suc k"
    using of_nat_mono [of "Suc n" "2 ^ Suc k", where ?'a = real] by simp
  have r1: "(2::real) ^ k \<le> real n"
    using of_nat_mono [OF b(1), where ?'a = real] by simp
  have lo: "(2::real) ^ k < 1 / x" and hi: "1 / x \<le> 2 ^ Suc k"
    using n r1 r2 by linarith+
  from hi x have "1 \<le> 2 ^ Suc k * x"
    by (simp add: field_simps)
  then have low: "1 / 2 ^ Suc k \<le> x"
    by (simp add: field_simps)
  from lo x have "2 ^ k * x < 1"
    by (simp add: field_simps)
  then have high: "x < 1 / 2 ^ k"
    by (simp add: field_simps)
  have sk: "nat (int k + 1) = Suc k"
    by simp
  have p1: "pow2 (- int (Suc k)) = 1 / 2 ^ Suc k"
    by (simp add: pow2_def sk del: power_Suc)
  have "- int (Suc k) + 1 = - int k"
    by simp
  then have p2: "pow2 (- int (Suc k) + 1) = 1 / 2 ^ k"
    by (cases k) (simp_all add: pow2_def sk del: power_Suc)
  show ?thesis
    unfolding e p1 p2 using low high by simp
qed

lemma round_even_of_int: "round_even (of_int n) = n"
  by (simp add: round_even_def)

lemma round_even_floor: "\<lfloor>x\<rfloor> \<le> round_even x \<and> round_even x \<le> \<lfloor>x\<rfloor> + 1"
  by (simp add: round_even_def Let_def)

lemma round_even_mono: "x \<le> y \<Longrightarrow> round_even x \<le> round_even y"
proof -
  assume le: "x \<le> y"
  then have fl: "\<lfloor>x\<rfloor> \<le> \<lfloor>y\<rfloor>"
    by (rule floor_mono)
  show ?thesis
  proof (cases "\<lfloor>x\<rfloor> = \<lfloor>y\<rfloor>")
    case True
    with le show ?thesis
      by (simp add: round_even_def Let_def)
  next
    case False
    with fl have "\<lfloor>x\<rfloor> + 1 \<le> \<lfloor>y\<rfloor>"
      by simp
    with round_even_floor [of x] round_even_floor [of y] show ?thesis
      by linarith
  qed
qed

lemma round_even_small: "0 \<le> x \<Longrightarrow> x < 1 / 2 \<Longrightarrow> round_even x = 0"
proof -
  assume "0 \<le> x" "x < 1 / 2"
  then have "\<lfloor>x\<rfloor> = 0"
    by linarith
  with \<open>x < 1 / 2\<close> show ?thesis
    by (simp add: round_even_def Let_def)
qed

lemma round64_pos:
  "0 < x \<Longrightarrow>
   round64 x = of_int (round_even (x / pow2 (max (expo x - 52) (- 1074))))
                 * pow2 (max (expo x - 52) (- 1074))"
  by (simp add: round64_def Let_def)

lemma round64_nonneg: "0 \<le> x \<Longrightarrow> 0 \<le> round64 x"
proof (cases "x = 0")
  case True
  then show ?thesis by (simp add: round64_def)
next
  case False
  assume "0 \<le> x"
  with False have pos: "0 < x" by simp
  have "0 \<le> x / pow2 (max (expo x - 52) (- 1074))"
    using pos pow2_pos [of "max (expo x - 52) (- 1074)"] by simp
  then have "round_even (of_int 0) \<le> round_even (x / pow2 (max (expo x - 52) (- 1074)))"
    by (intro round_even_mono) simp
  then have "0 \<le> round_even (x / pow2 (max (expo x - 52) (- 1074)))"
    by (simp only: round_even_of_int)
  then show ?thesis
    unfolding round64_pos [OF pos] using pow2_pos [of "max (expo x - 52) (- 1074)"] by simp
qed

lemma round64_upper:
  assumes "0 < x"
  shows "round64 x \<le> pow2 (expo x + 1)"
proof -
  define q where "q = max (expo x - 52) (- 1074)"
  define m where "m = expo x + 1 - q"
  have qp: "0 < pow2 q"
    by (rule pow2_pos)
  have split: "pow2 (expo x + 1) = pow2 m * pow2 q"
    unfolding m_def by (simp add: pow2_add [symmetric])
  have "x < pow2 m * pow2 q"
    using expo_bounds [OF assms] split by simp
  then have lt: "x / pow2 q < pow2 m"
    using qp by (simp add: field_simps)
  have r: "round64 x = of_int (round_even (x / pow2 q)) * pow2 q"
    unfolding q_def by (rule round64_pos [OF assms])
  show ?thesis
  proof (cases "0 \<le> m")
    case True
    then have pm: "pow2 m = of_int (2 ^ nat m)"
      by (simp add: pow2_def)
    have "round_even (x / pow2 q) \<le> round_even (of_int (2 ^ nat m))"
      using lt unfolding pm by (intro round_even_mono) simp
    then have "round_even (x / pow2 q) \<le> 2 ^ nat m"
      by (simp only: round_even_of_int)
    then have "real_of_int (round_even (x / pow2 q)) \<le> pow2 m"
      unfolding pm by (simp only: of_int_le_iff)
    then show ?thesis
      unfolding r split using qp by simp
  next
    case False
    then have "m \<le> - 1"
      by simp
    then have "pow2 m \<le> pow2 (- 1)"
      by (rule pow2_mono)
    moreover have "pow2 (- 1) = 1 / 2"
      by (simp add: pow2_def)
    ultimately have "x / pow2 q < 1 / 2"
      using lt by linarith
    moreover have "0 \<le> x / pow2 q"
      using assms qp by simp
    ultimately have "round_even (x / pow2 q) = 0"
      by (intro round_even_small)
    then show ?thesis
      unfolding r using pow2_pos [of "expo x + 1"] by simp
  qed
qed

lemma round64_lower:
  assumes "0 < y" "- 1074 \<le> expo y - 52"
  shows "pow2 (expo y) \<le> round64 y"
proof -
  define q where "q = expo y - 52"
  have qp: "0 < pow2 q"
    by (rule pow2_pos)
  have mx: "max (expo y - 52) (- 1074) = q"
    using assms(2) by (simp add: q_def)
  have r: "round64 y = of_int (round_even (y / pow2 q)) * pow2 q"
    using round64_pos [OF assms(1)] unfolding mx .
  have split: "pow2 (expo y) = pow2 52 * pow2 q"
    unfolding q_def by (simp add: pow2_add [symmetric])
  have p52: "pow2 52 = of_int (2 ^ 52)"
    by (simp add: pow2_def)
  have "pow2 52 * pow2 q \<le> y"
    using expo_bounds [OF assms(1)] split by simp
  then have "pow2 52 \<le> y / pow2 q"
    using qp by (simp add: field_simps)
  then have "round_even (of_int (2 ^ 52)) \<le> round_even (y / pow2 q)"
    unfolding p52 by (rule round_even_mono)
  then have "2 ^ 52 \<le> round_even (y / pow2 q)"
    by (simp only: round_even_of_int)
  then have "pow2 52 \<le> real_of_int (round_even (y / pow2 q))"
    unfolding p52 by (simp only: of_int_le_iff)
  then show ?thesis
    unfolding r split using qp by simp
qed

lemma expo_mono:
  assumes "0 < x" "x \<le> y"
  shows "expo x \<le> expo y"
proof (rule ccontr)
  assume "\<not> expo x \<le> expo y"
  then have "expo y + 1 \<le> expo x"
    by simp
  then have "pow2 (expo y + 1) \<le> pow2 (expo x)"
    by (rule pow2_mono)
  moreover have "0 < y"
    using assms by simp
  ultimately show False
    using expo_bounds [OF assms(1)] expo_bounds [OF \<open>0 < y\<close>] assms(2) by linarith
qed

lemma round64_mono:
  assumes "0 \<le> x" "x \<le> y"
  shows "round64 x \<le> round64 y"
proof (cases "x = 0")
  case True
  then show ?thesis
    using assms round64_nonneg [of y] by (simp add: round64_def)
next
  case False
  with assms have x: "0 < x" and y: "0 < y"
    by simp_all
  define qx where "qx = max (expo x - 52) (- 1074)"
  define qy where "qy = max (expo y - 52) (- 1074)"
  have e: "expo x \<le> expo y"
    using x assms(2) by (rule expo_mono)
  show ?thesis
  proof (cases "qx = qy")
    case True
    have "x / pow2 qy \<le> y / pow2 qy"
      using assms(2) pow2_pos [of qy] by (simp add: divide_right_mono)
    then have "round_even (x / pow2 qy) \<le> round_even (y / pow2 qy)"
      by (rule round_even_mono)
    then have "real_of_int (round_even (x / pow2 qy)) * pow2 qy
        \<le> real_of_int (round_even (y / pow2 qy)) * pow2 qy"
      using pow2_pos [of qy] by simp
    then show ?thesis
      using True unfolding round64_pos [OF x] round64_pos [OF y] qx_def qy_def by simp
  next
    case False
    with e have lt: "expo x + 1 \<le> expo y" and big: "- 1074 \<le> expo y - 52"
      unfolding qx_def qy_def by (simp_all add: max_def split: if_splits)
    have "round64 x \<le> pow2 (expo x + 1)"
      using x by (rule round64_upper)
    also have "\<dots> \<le> pow2 (expo y)"
      using lt by (rule pow2_mono)
    also have "\<dots> \<le> round64 y"
      using y big by (rule round64_lower)
    finally show ?thesis .
  qed
qed

lemma fmul_unit_range:
  assumes "0 \<le> r" "r < 1"
  shows "0 \<le> fmul r 6 \<and> fmul r 6 \<le> 6 \<and> 0 \<le> fmul r 10 \<and> fmul r 10 \<le> 10"
proof -
  have six: "round64 6 = 6" and ten: "round64 10 = 10"
    by (simp_all add: number_eval)
  have "round64 (r * 6) \<le> round64 6" "round64 (r * 10) \<le> round64 10"
    using assms by (intro round64_mono; simp)+
  then show ?thesis
    using assms unfolding fmul_def six ten by (simp add: round64_nonneg)
qed

lemma fadd_nonneg: "0 \<le> x \<Longrightarrow> 0 \<le> y \<Longrightarrow> 0 \<le> fadd x y"
  by (simp add: fadd_def round64_nonneg)


text \<open>Sums that reach 100 by rounding, the random number being the largest below 1.\<close>

lemma rounded_sums:
  "fadd 94 (fmul (1 - 1 / 2 ^ 53) 6) = 100"
  "fadd 90 (fmul (1 - 1 / 2 ^ 53) 10) = 100"
  "94 + (1 - 1 / 2 ^ 53) * 6 < (100::real)"
  by (simp_all add: number_eval)

text \<open>
  The literal \<open>0.7\<close>: the binary64 number it denotes is below 7/10, and the next
  one, a unit in the last place (\<open>2^-53\<close>) further, is above.
\<close>

lemma literal_seven_tenths:
  "round64 (7 / 10) < 7 / 10"
  "7 / 10 < round64 (7 / 10) + 1 / 2 ^ 53"
  "expo (round64 (7 / 10)) - 52 = - 53"
  by (simp_all add: number_eval)

section \<open>Tasks that are not running\<close>

lemma tick_length: "length (fst (tick ts w)) = length ts"
  by (induction ts arbitrary: w) (auto simp: case_prod_unfold Let_def)

lemma tick_idle_nth:
  "i < length ts \<Longrightarrow> t_status (ts ! i) \<noteq> Running \<Longrightarrow> fst (tick ts w) ! i = ts ! i"
proof (induction ts arbitrary: i w)
  case Nil
  then show ?case by simp
next
  case (Cons t ts)
  show ?case
  proof (cases i)
    case 0
    with Cons.prems show ?thesis
      by (simp add: case_prod_unfold Let_def tick_task_def)
  next
    case (Suc j)
    with Cons.prems have "j < length ts" "t_status (ts ! j) \<noteq> Running"
      by simp_all
    then have "fst (tick ts (snd (tick_task t w))) ! j = ts ! j"
      by (rule Cons.IH)
    with Suc show ?thesis
      by (simp add: case_prod_unfold Let_def)
  qed
qed

lemma ticks_length: "length (fst (ticks n ts w)) = length ts"
proof (induction n arbitrary: ts w)
  case 0
  show ?case by simp
next
  case (Suc n)
  have "length (fst (ticks n (fst (tick ts w)) (snd (tick ts w)))) = length (fst (tick ts w))"
    by (rule Suc.IH)
  then show ?case
    by (simp add: case_prod_unfold Let_def tick_length)
qed

lemma ticks_idle_nth:
  "i < length ts \<Longrightarrow> t_status (ts ! i) \<noteq> Running \<Longrightarrow> fst (ticks n ts w) ! i = ts ! i"
proof (induction n arbitrary: ts w)
  case 0
  show ?case by simp
next
  case (Suc n)
  let ?ts = "fst (tick ts w)"
  have same: "?ts ! i = ts ! i"
    using Suc.prems by (rule tick_idle_nth)
  have "i < length ?ts" "t_status (?ts ! i) \<noteq> Running"
    using Suc.prems same by (simp_all add: tick_length)
  then have "fst (ticks n ?ts (snd (tick ts w))) ! i = ?ts ! i"
    by (rule Suc.IH)
  with same show ?case
    by (simp add: case_prod_unfold Let_def)
qed

text \<open>
  C4. A tick returns a task whose status is not \<open>running\<close> as it is, every field
  included, and draws nothing from the environment for it. Hence such a task, at any
  position of the collection, is the same task after any number of ticks: a complete
  task keeps its status and its progress and never goes back to an earlier status.
\<close>

theorem idle_task_unchanged:
  assumes "t_status t \<noteq> Running"
  shows "tick_task t w = (t, w)
         \<and> (i < length ts \<and> ts ! i = t \<longrightarrow> fst (ticks n ts w') ! i = t)"
proof -
  have "tick_task t w = (t, w)"
    using assms by (simp add: tick_task_def)
  moreover have "fst (ticks n ts w') ! i = t" if "i < length ts" "ts ! i = t"
    using that assms ticks_idle_nth [of i ts n w'] by simp
  ultimately show ?thesis
    by simp
qed

theorem idle_task_unchanged_witness:
  "t_status (fst (seedTasks (const_world (1 / 2) 0)) ! 2) \<noteq> Running
   \<and> tick_task (fst (seedTasks (const_world (1 / 2) 0)) ! 2) (const_world (1 / 2) 7000)
       = (fst (seedTasks (const_world (1 / 2) 0)) ! 2, const_world (1 / 2) 7000)
   \<and> fst (ticks 3 (fst (seedTasks (const_world (1 / 2) 0))) (const_world (1 / 2) 7000)) ! 2
       = fst (seedTasks (const_world (1 / 2) 0)) ! 2"
proof -
  let ?ts = "fst (seedTasks (const_world (1 / 2) 0))"
  have idle: "t_status (?ts ! 2) \<noteq> Running"
    by (simp add: seedTasks_def const_world_def date_now_def)
  have len: "2 < length ?ts"
    by (simp add: seedTasks_def const_world_def date_now_def)
  show ?thesis
    using idle len
      idle_task_unchanged [OF idle, of "const_world (1 / 2) 7000" 2 ?ts 3 "const_world (1 / 2) 7000"]
    by simp
qed

section \<open>A tick, step by step\<close>

lemma tick_step_complete:
  "s_status s = Complete \<Longrightarrow> tick_step startTime p s w = (s, w)"
  by (simp add: tick_step_def)

lemma tick_steps_all_complete:
  "list_all (\<lambda>s. s_status s = Complete) ss \<Longrightarrow> tick_steps startTime p ss w = (ss, w)"
  by (induction ss arbitrary: w) (simp_all add: tick_step_complete)

lemma tick_step_queued:
  "s_status s = Queued \<Longrightarrow>
   tick_step start p s w =
     (if p > 10 \<and> rnd w (rnd_pos w) > 7 / 10
      then (s\<lparr>s_status := Running, s_progress := Some (or_num (s_progress s) 5),
              s_duration := Some (fst (calcDuration start (w\<lparr>rnd_pos := Suc (rnd_pos w)\<rparr>)))\<rparr>,
            snd (calcDuration start (w\<lparr>rnd_pos := Suc (rnd_pos w)\<rparr>)))
      else (s, if p > 10 then w\<lparr>rnd_pos := Suc (rnd_pos w)\<rparr> else w))"
  by (simp add: tick_step_def math_random_def case_prod_unfold Let_def)

lemma tick_step_running:
  "s_status s = Running \<Longrightarrow>
   s_progress (fst (tick_step start p s w))
     = Some (min 100 (fadd (or_num (s_progress s) 0) (fmul (rnd w (rnd_pos w)) 10)))"
  by (simp add: tick_step_def math_random_def case_prod_unfold Let_def)

lemma tick_task_running:
  "t_status t = Running \<Longrightarrow>
   tick_task t w =
     (let r = rnd w (rnd_pos w);
          w1 = w\<lparr>rnd_pos := Suc (rnd_pos w)\<rparr>;
          p = min 100 (fadd (t_progress t) (fmul r 6));
          res = tick_steps (t_startTime t) p (t_steps t) w1;
          complete = (list_all (\<lambda>s. s_status s = Complete) (fst res) \<or> p \<ge> 100);
          dw = calcDuration (t_startTime t) (snd res)
      in (t\<lparr>t_progress := (if complete then 100 else p),
            t_status := (if complete then Complete else Running),
            t_steps := fst res,
            t_duration := Some (fst dw)\<rparr>, snd dw))"
  by (simp add: tick_task_def math_random_def Let_def case_prod_unfold)

lemma tick_task_steps:
  "t_status t = Running \<Longrightarrow>
   t_steps (fst (tick_task t w))
     = fst (tick_steps (t_startTime t) (min 100 (fadd (t_progress t) (fmul (rnd w (rnd_pos w)) 6)))
              (t_steps t) (w\<lparr>rnd_pos := Suc (rnd_pos w)\<rparr>))"
  unfolding tick_task_running Let_def by simp

text \<open>The random source itself is never changed, only the position in it.\<close>

lemma calcDuration_rnd: "rnd (snd (calcDuration start w)) = rnd w"
  by (simp add: calcDuration_def date_now_def Let_def)

lemma tick_step_rnd: "rnd (snd (tick_step start p s w)) = rnd w"
  by (simp add: tick_step_def math_random_def calcDuration_def date_now_def Let_def)

lemma tick_steps_rnd: "rnd (snd (tick_steps start p ss w)) = rnd w"
  by (induction ss arbitrary: w) (simp_all add: case_prod_unfold Let_def tick_step_rnd)

lemma tick_task_rnd: "rnd (snd (tick_task t w)) = rnd w"
  by (simp add: tick_task_def math_random_def case_prod_unfold Let_def
      calcDuration_rnd tick_steps_rnd)

lemma tick_rnd: "rnd (snd (tick ts w)) = rnd w"
  by (induction ts arbitrary: w) (simp_all add: case_prod_unfold Let_def tick_task_rnd)

text \<open>
  The maps go through the list from left to right: the element at an index is the
  callback's result in the environment the elements before it have left.
\<close>

lemma tick_steps_length: "length (fst (tick_steps start p ss w)) = length ss"
  by (induction ss arbitrary: w) (simp_all add: case_prod_unfold Let_def)

lemma tick_steps_nth:
  "j < length ss \<Longrightarrow>
   fst (tick_steps start p ss w) ! j
     = fst (tick_step start p (ss ! j) (snd (tick_steps start p (take j ss) w)))"
proof (induction ss arbitrary: j w)
  case Nil
  then show ?case by simp
next
  case (Cons s ss)
  show ?case
  proof (cases j)
    case 0
    then show ?thesis
      by (simp add: case_prod_unfold Let_def)
  next
    case (Suc k)
    with Cons.prems have "k < length ss"
      by simp
    then have "fst (tick_steps start p ss (snd (tick_step start p s w))) ! k
        = fst (tick_step start p (ss ! k)
            (snd (tick_steps start p (take k ss) (snd (tick_step start p s w)))))"
      by (rule Cons.IH)
    with Suc show ?thesis
      by (simp add: case_prod_unfold Let_def)
  qed
qed

lemma tick_nth:
  "i < length ts \<Longrightarrow>
   fst (tick ts w) ! i = fst (tick_task (ts ! i) (snd (tick (take i ts) w)))"
proof (induction ts arbitrary: i w)
  case Nil
  then show ?case by simp
next
  case (Cons t ts)
  show ?case
  proof (cases i)
    case 0
    then show ?thesis
      by (simp add: case_prod_unfold Let_def)
  next
    case (Suc k)
    with Cons.prems have "k < length ts"
      by simp
    then have "fst (tick ts (snd (tick_task t w))) ! k
        = fst (tick_task (ts ! k) (snd (tick (take k ts) (snd (tick_task t w)))))"
      by (rule Cons.IH)
    with Suc show ?thesis
      by (simp add: case_prod_unfold Let_def)
  qed
qed

text \<open>A queued step stays queued when no number above 7/10 is ever drawn.\<close>

lemma queued_stays:
  assumes "t_status t = Running" "j < length (t_steps t)" "s_status (t_steps t ! j) = Queued"
    and "\<forall>k. rnd w k \<le> 7 / 10"
  shows "t_steps (fst (tick_task t w)) ! j = t_steps t ! j"
proof -
  define p where "p = min 100 (fadd (t_progress t) (fmul (rnd w (rnd_pos w)) 6))"
  define w' where "w' = snd (tick_steps (t_startTime t) p (take j (t_steps t)) (w\<lparr>rnd_pos := Suc (rnd_pos w)\<rparr>))"
  have "rnd w' = rnd w"
    unfolding w'_def by (simp add: tick_steps_rnd)
  then have "\<not> rnd w' (rnd_pos w') > 7 / 10"
    using assms(4) by (simp add: not_less)
  then have "fst (tick_step (t_startTime t) p (t_steps t ! j) w') = t_steps t ! j"
    by (simp add: tick_step_queued [OF assms(3)])
  then show ?thesis
    unfolding tick_task_steps [OF assms(1)] p_def [symmetric]
    by (simp add: tick_steps_nth [OF assms(2)] w'_def)
qed

section \<open>Completion of a running task\<close>

text \<open>
  C5. A tick on a running task: when every step is complete after the steps were
  advanced, or the progress incremented in this tick (the sum the code computes, in
  binary64) has reached 100, the task's progress is exactly 100 and its status
  \<open>complete\<close>; otherwise the status stays \<open>running\<close> and the progress is the
  incremented one. In particular a running task all of whose steps are already complete
  is complete after one tick.
\<close>

theorem tick_completion:
  assumes "t_status t = Running"
  shows "(if list_all (\<lambda>s. s_status s = Complete) (t_steps (fst (tick_task t w)))
             \<or> min 100 (fadd (t_progress t) (fmul (rnd w (rnd_pos w)) 6)) \<ge> 100
          then t_progress (fst (tick_task t w)) = 100 \<and> t_status (fst (tick_task t w)) = Complete
          else t_status (fst (tick_task t w)) = Running
               \<and> t_progress (fst (tick_task t w))
                   = min 100 (fadd (t_progress t) (fmul (rnd w (rnd_pos w)) 6)))
         \<and> (list_all (\<lambda>s. s_status s = Complete) (t_steps t) \<longrightarrow>
              t_status (fst (tick_task t w)) = Complete \<and> t_progress (fst (tick_task t w)) = 100)"
proof -
  define p where "p = min 100 (fadd (t_progress t) (fmul (rnd w (rnd_pos w)) 6))"
  define res where "res = tick_steps (t_startTime t) p (t_steps t) (w\<lparr>rnd_pos := Suc (rnd_pos w)\<rparr>)"
  define complete where "complete = (list_all (\<lambda>s. s_status s = Complete) (fst res) \<or> p \<ge> 100)"
  have prog: "t_progress (fst (tick_task t w)) = (if complete then 100 else p)"
    and stat: "t_status (fst (tick_task t w)) = (if complete then Complete else Running)"
    and stps: "t_steps (fst (tick_task t w)) = fst res"
    unfolding tick_task_running [OF assms] Let_def p_def res_def complete_def by simp_all
  have first: "if list_all (\<lambda>s. s_status s = Complete) (t_steps (fst (tick_task t w))) \<or> p \<ge> 100
          then t_progress (fst (tick_task t w)) = 100 \<and> t_status (fst (tick_task t w)) = Complete
          else t_status (fst (tick_task t w)) = Running \<and> t_progress (fst (tick_task t w)) = p"
    unfolding prog stat stps complete_def by simp
  have second: "t_status (fst (tick_task t w)) = Complete \<and> t_progress (fst (tick_task t w)) = 100"
    if "list_all (\<lambda>s. s_status s = Complete) (t_steps t)"
  proof -
    have "fst res = t_steps t"
      unfolding res_def by (simp add: tick_steps_all_complete [OF that])
    with that have complete
      unfolding complete_def by simp
    then show ?thesis
      unfolding prog stat by simp
  qed
  from first second show ?thesis
    unfolding p_def by blast
qed

text \<open>
  The theorem at a seed task that stays running, at a running task whose steps are all
  complete, and at progress 94 with the largest random number below 1, where the exact
  sum is below 100 and the sum the code computes is 100.
\<close>

text \<open>
  The theorem at a seed task that stays running, at a running task whose steps are all
  complete, and at progress 94 with the largest random number below 1, where the exact
  sum is below 100 and the sum the code computes is 100.
\<close>

theorem tick_completion_witness:
  "t_status (fst (seedTasks (const_world (1 / 2) 0)) ! 0) = Running
   \<and> t_status (fst (tick_task (fst (seedTasks (const_world (1 / 2) 0)) ! 0) (const_world (1 / 2) 1000))) = Running
   \<and> t_progress (fst (tick_task (fst (seedTasks (const_world (1 / 2) 0)) ! 0) (const_world (1 / 2) 1000))) = 45
   \<and> t_status ((fst (seedTasks (const_world 0 0)) ! 2)\<lparr>t_status := Running, t_progress := 20\<rparr>) = Running
   \<and> list_all (\<lambda>s. s_status s = Complete)
        (t_steps ((fst (seedTasks (const_world 0 0)) ! 2)\<lparr>t_status := Running, t_progress := 20\<rparr>))
   \<and> t_status (fst (tick_task ((fst (seedTasks (const_world 0 0)) ! 2)\<lparr>t_status := Running, t_progress := 20\<rparr>)
        (const_world 0 1000))) = Complete
   \<and> t_progress (fst (tick_task ((fst (seedTasks (const_world 0 0)) ! 2)\<lparr>t_status := Running, t_progress := 20\<rparr>)
        (const_world 0 1000))) = 100
   \<and> t_status (fst (tick_task ((fst (seedTasks (const_world 0 0)) ! 0)\<lparr>t_progress := 94\<rparr>)
        (const_world (1 - 1 / 2 ^ 53) 1000))) = Complete
   \<and> t_progress (fst (tick_task ((fst (seedTasks (const_world 0 0)) ! 0)\<lparr>t_progress := 94\<rparr>)
        (const_world (1 - 1 / 2 ^ 53) 1000))) = 100"
proof -
  let ?t = "fst (seedTasks (const_world (1 / 2) 0)) ! 0"
  let ?u = "(fst (seedTasks (const_world 0 0)) ! 2)\<lparr>t_status := Running, t_progress := 20\<rparr>"
  let ?v = "(fst (seedTasks (const_world 0 0)) ! 0)\<lparr>t_progress := 94\<rparr>"
  let ?w = "const_world (1 / 2) 1000"
  have run: "t_status ?t = Running"
    by (simp add: seedTasks_def const_world_def date_now_def)
  have prog: "t_progress ?t = 42" "rnd ?w (rnd_pos ?w) = 1 / 2"
    by (simp_all add: seedTasks_def const_world_def date_now_def)
  have sum: "fadd 42 (fmul (1 / 2) 6) = 45"
    by (simp add: number_eval)
  have q: "2 < length (t_steps ?t)" "s_status (t_steps ?t ! 2) = Queued"
    by (simp_all add: seedTasks_def const_world_def date_now_def)
  have low: "\<forall>k. rnd ?w k \<le> 7 / 10"
    by (simp add: const_world_def)
  have same: "t_steps (fst (tick_task ?t ?w)) ! 2 = t_steps ?t ! 2"
    using run q low by (rule queued_stays)
  have len: "2 < length (t_steps (fst (tick_task ?t ?w)))"
    using q(1) by (simp add: tick_task_steps [OF run] tick_steps_length)
  have "s_status (t_steps (fst (tick_task ?t ?w)) ! 2) \<noteq> Complete"
    unfolding same q(2) by simp
  with len have steps: "\<not> list_all (\<lambda>s. s_status s = Complete) (t_steps (fst (tick_task ?t ?w)))"
    unfolding list_all_length by blast
  have one: "t_status (fst (tick_task ?t ?w)) = Running \<and> t_progress (fst (tick_task ?t ?w)) = 45"
    using steps tick_completion [OF run, of ?w]
    unfolding prog sum by simp
  have run': "t_status ?u = Running"
    by simp
  have all: "list_all (\<lambda>s. s_status s = Complete) (t_steps ?u)"
    by (simp add: seedTasks_def const_world_def date_now_def)
  have two: "t_status (fst (tick_task ?u (const_world 0 1000))) = Complete
     \<and> t_progress (fst (tick_task ?u (const_world 0 1000))) = 100"
    using all tick_completion [OF run', of "const_world 0 1000"] by blast
  have run'': "t_status ?v = Running"
    by (simp add: seedTasks_def const_world_def date_now_def)
  have prog'': "t_progress ?v = 94"
    "rnd (const_world (1 - 1 / 2 ^ 53) 1000) (rnd_pos (const_world (1 - 1 / 2 ^ 53) 1000)) = 1 - 1 / 2 ^ 53"
    by (simp_all add: const_world_def)
  have three: "t_status (fst (tick_task ?v (const_world (1 - 1 / 2 ^ 53) 1000))) = Complete
     \<and> t_progress (fst (tick_task ?v (const_world (1 - 1 / 2 ^ 53) 1000))) = 100"
    using tick_completion [OF run'', of "const_world (1 - 1 / 2 ^ 53) 1000"]
    unfolding prog'' rounded_sums by simp
  from run one run' all two three show ?thesis
    by blast
qed

section \<open>The identifier counter\<close>

lemma calcDuration_idCounter: "idCounter (snd (calcDuration start w)) = idCounter w"
  by (simp add: calcDuration_def date_now_def Let_def)

lemma tick_step_idCounter: "idCounter (snd (tick_step start p s w)) = idCounter w"
  by (simp add: tick_step_def math_random_def calcDuration_def date_now_def Let_def)

lemma tick_steps_idCounter: "idCounter (snd (tick_steps start p ss w)) = idCounter w"
  by (induction ss arbitrary: w) (simp_all add: case_prod_unfold Let_def tick_step_idCounter)

lemma tick_task_idCounter: "idCounter (snd (tick_task t w)) = idCounter w"
  by (simp add: tick_task_def math_random_def case_prod_unfold Let_def
      calcDuration_idCounter tick_steps_idCounter)

lemma tick_idCounter: "idCounter (snd (tick ts w)) = idCounter w"
  by (induction ts arbitrary: w) (simp_all add: case_prod_unfold Let_def tick_task_idCounter)

lemma makeTask_id:
  "t_id (fst (makeTask name user steps w)) = idCounter w + 1"
  "idCounter (snd (makeTask name user steps w)) = idCounter w + 1"
  by (simp_all add: makeTask_def date_now_def Let_def)

section \<open>makeTask\<close>

text \<open>
  C8. \<open>makeTask\<close> called with a name and no step sequence returns the task with the
  fixed four-stage default pipeline (the first stage running, the other three queued,
  each with its fixed label), the label of the first running step (\<open>GPT-4\<close>) as
  \<open>llm\<close>, status \<open>running\<close>, progress 5, the clock's reading as start time and
  duration \<open>0s\<close>. Every call, whatever its arguments, returns the counter's value
  plus one as identifier and leaves the counter at that value; a tick does not touch
  the counter; so the identifiers of two successive calls strictly increase.
\<close>

theorem makeTask_default:
  "makeTask name user None w =
     (\<lparr> t_id = idCounter w + 1, t_name = name, t_status = Running, t_progress = 5,
        t_user = or_str user (js ''You''), t_llm = js ''GPT-4'',
        t_startTime = clock w (clock_pos w), t_duration = Some (js ''0s''),
        t_steps =
          [\<lparr> s_name = js ''Ingest Requirements'', s_status = Running, s_llm = js ''GPT-4'',
              s_progress = Some 15, s_duration = None \<rparr>,
           \<lparr> s_name = js ''Spec Synthesis'', s_status = Queued, s_llm = js ''Claude Sonnet 4.5'',
              s_progress = None, s_duration = None \<rparr>,
           \<lparr> s_name = js ''Ops Plan + Checks'', s_status = Queued, s_llm = js ''Kimi K2'',
              s_progress = None, s_duration = None \<rparr>,
           \<lparr> s_name = js ''Execution & Verify'', s_status = Queued, s_llm = js ''GPT-4'',
              s_progress = None, s_duration = None \<rparr>] \<rparr>,
      w\<lparr>clock_pos := Suc (clock_pos w), idCounter := idCounter w + 1\<rparr>)
   \<and> t_id (fst (makeTask name1 user1 steps1 w)) = idCounter w + 1
   \<and> idCounter (snd (makeTask name1 user1 steps1 w)) = idCounter w + 1
   \<and> idCounter (snd (tick ts w)) = idCounter w
   \<and> t_id (fst (makeTask name1 user1 steps1 w))
       < t_id (fst (makeTask name2 user2 steps2 (snd (makeTask name1 user1 steps1 w))))"
proof -
  have "js ''GPT-4'' \<noteq> []"
    by (simp add: js_def)
  then have "makeTask name user None w =
     (\<lparr> t_id = idCounter w + 1, t_name = name, t_status = Running, t_progress = 5,
        t_user = or_str user (js ''You''), t_llm = js ''GPT-4'',
        t_startTime = clock w (clock_pos w), t_duration = Some (js ''0s''),
        t_steps = default_pipeline \<rparr>,
      w\<lparr>clock_pos := Suc (clock_pos w), idCounter := idCounter w + 1\<rparr>)"
    by (simp add: makeTask_def date_now_def default_pipeline_def Let_def)
  then show ?thesis
    by (simp add: default_pipeline_def makeTask_id tick_idCounter)
qed

theorem makeTask_default_witness:
  "t_id (fst (makeTask (js ''Audit Logs'') None None (const_world 0 5000))) = 1001
   \<and> t_llm (fst (makeTask (js ''Audit Logs'') None None (const_world 0 5000))) = js ''GPT-4''
   \<and> t_startTime (fst (makeTask (js ''Audit Logs'') None None (const_world 0 5000))) = 5000"
  using makeTask_default [of "js ''Audit Logs''" None "const_world 0 5000"]
  by (simp add: const_world_def)

lemma tick_task_no_steps:
  "t_status t = Running \<Longrightarrow> t_steps t = [] \<Longrightarrow>
   t_progress (fst (tick_task t w)) = 100 \<and> t_status (fst (tick_task t w)) = Complete
   \<and> t_steps (fst (tick_task t w)) = []"
  by (simp add: tick_task_def math_random_def case_prod_unfold Let_def)

text \<open>
  C10. \<open>makeTask\<close> called with an explicitly supplied empty step array uses it as the
  pipeline: the task has no steps, its \<open>llm\<close> is the fallback \<open>GPT-4\<close>, and, as
  every step of an empty list is complete, the first tick (in any environment) sets
  its progress to 100 and its status to \<open>complete\<close>. The deriver does return the empty
  array when the selected message matches the trigger and has no numbered line.
\<close>

theorem makeTask_empty_pipeline:
  "t_steps (fst (makeTask name user (Some []) w)) = []
   \<and> t_llm (fst (makeTask name user (Some []) w)) = js ''GPT-4''
   \<and> t_status (fst (makeTask name user (Some []) w)) = Running
   \<and> t_progress (fst (makeTask name user (Some []) w)) = 5
   \<and> t_progress (fst (tick_task (fst (makeTask name user (Some []) w)) w')) = 100
   \<and> t_status (fst (tick_task (fst (makeTask name user (Some []) w)) w')) = Complete
   \<and> derivePipeline [\<lparr>m_role = AI, m_text = js ''Plan v1.0 is ready''\<rparr>] = Inr (Some [])"
proof -
  have mk: "t_steps (fst (makeTask name user (Some []) w)) = []"
    "t_llm (fst (makeTask name user (Some []) w)) = js ''GPT-4''"
    "t_status (fst (makeTask name user (Some []) w)) = Running"
    "t_progress (fst (makeTask name user (Some []) w)) = 5"
    by (simp_all add: makeTask_def date_now_def Let_def)
  have dp: "derivePipeline [\<lparr>m_role = AI, m_text = js ''Plan v1.0 is ready''\<rparr>] = Inr (Some [])"
    by (simp add: derivePipeline_def test_1dot_def js_def split_def nl_def is_digit_def)
  from mk dp tick_task_no_steps [OF mk(3) mk(1), of w'] show ?thesis
    by simp
qed

section \<open>The message derivePipeline selects\<close>

text \<open>\<open>undefined\<close> is returned exactly when no ai message holds \<open>1.\<close> anywhere in its text.\<close>

lemma derivePipeline_none_iff:
  "derivePipeline messages = Inr None
     \<longleftrightarrow> \<not> list_ex (\<lambda>m. m_role m = AI \<and> test_1dot (m_text m)) messages"
proof (cases "find (\<lambda>m. m_role m = AI \<and> test_1dot (m_text m)) (rev messages)")
  case None
  then have "\<not> list_ex (\<lambda>m. m_role m = AI \<and> test_1dot (m_text m)) messages"
    by (auto simp: find_None_iff list_ex_iff)
  with None show ?thesis
    by (simp add: derivePipeline_def)
next
  case (Some m)
  then obtain i where "i < length (rev messages)" "m = rev messages ! i"
    "m_role m = AI \<and> test_1dot (m_text m)"
    unfolding find_Some_iff by blast
  then have "m \<in> set messages" "m_role m = AI \<and> test_1dot (m_text m)"
    using nth_mem [of i "rev messages"] by simp_all
  then have "list_ex (\<lambda>m. m_role m = AI \<and> test_1dot (m_text m)) messages"
    unfolding list_ex_iff by blast
  with Some show ?thesis
    by (simp add: derivePipeline_def split: sum.splits)
qed

text \<open>
  C1. The code's trigger \<open>/1\./\<close> is not anchored: an ai message with \<open>1.\<close> in the
  middle of a line, none of whose lines begins with \<open>1.\<close>, is selected, and the result
  is the empty step array, not \<open>undefined\<close>. Such a message also hides an older ai
  message that does hold a numbered plan.
\<close>

theorem derivePipeline_midline_trigger:
  "derivePipeline [\<lparr>m_role = AI, m_text = js ''Version 1.2 released''\<rparr>] = Inr (Some [])
   \<and> \<not> list_ex (prefix (js ''1.'')) (split (js ''Version 1.2 released'') [nl])
   \<and> derivePipeline [\<lparr>m_role = AI, m_text = js ''1. Collect Data''\<rparr>,
                       \<lparr>m_role = AI, m_text = js ''Version 1.2 released''\<rparr>] = Inr (Some [])"
  by (simp add: derivePipeline_def test_1dot_def js_def split_def nl_def is_digit_def)

text \<open>
  C2. A line that passes the filter \<open>/^\d+\./\<close> and holds no \<open>'. '\<close> makes
  \<open>rest\<close> undefined, and \<open>rest.split\<close> throws a TypeError.
\<close>

theorem derivePipeline_throws:
  "derivePipeline [\<lparr>m_role = AI, m_text = js ''1.foo''\<rparr>] = Inl TypeError
   \<and> test_numbered (js ''1.foo'')"
  by (simp add: derivePipeline_def test_1dot_def js_def split_def nl_def is_digit_def parse_line_def)

section \<open>Progress stays within bounds\<close>

lemma or_num_range:
  "step_in_range s \<Longrightarrow> 0 \<le> d \<Longrightarrow> d \<le> 100 \<Longrightarrow>
   0 \<le> or_num (s_progress s) d \<and> or_num (s_progress s) d \<le> 100"
  by (cases "s_progress s") (simp_all add: step_in_range_def)

lemma tick_step_in_range:
  assumes "unit_source w" "step_in_range s"
  shows "step_in_range (fst (tick_step start p s w))"
proof -
  have r: "0 \<le> rnd w (rnd_pos w)" "rnd w (rnd_pos w) < 1"
    using assms(1) by simp_all
  have base: "0 \<le> or_num (s_progress s) 0"
    and seed: "0 \<le> or_num (s_progress s) 5 \<and> or_num (s_progress s) 5 \<le> 100"
    using or_num_range [OF assms(2), of 0] or_num_range [OF assms(2), of 5] by simp_all
  show ?thesis
  proof (cases "s_status s")
    case Running
    have "0 \<le> fmul (rnd w (rnd_pos w)) 10"
      using fmul_unit_range [OF r] by simp
    with base have "0 \<le> fadd (or_num (s_progress s) 0) (fmul (rnd w (rnd_pos w)) 10)"
      by (rule fadd_nonneg)
    then show ?thesis
      by (simp add: step_in_range_def tick_step_running [OF Running])
  next
    case Queued
    then show ?thesis
      using seed assms(2) by (simp add: tick_step_queued step_in_range_def)
  next
    case Complete
    then show ?thesis
      using assms(2) by (simp add: tick_step_complete)
  qed
qed

lemma tick_steps_in_range:
  "unit_source w \<Longrightarrow> list_all step_in_range ss \<Longrightarrow>
   list_all step_in_range (fst (tick_steps start p ss w))"
proof (induction ss arbitrary: w)
  case Nil
  show ?case by simp
next
  case (Cons s ss)
  have "unit_source (snd (tick_step start p s w))"
    using Cons.prems(1) by (simp add: tick_step_rnd)
  moreover have "list_all step_in_range ss"
    using Cons.prems(2) by simp
  ultimately have "list_all step_in_range (fst (tick_steps start p ss (snd (tick_step start p s w))))"
    by (rule Cons.IH)
  moreover have "step_in_range (fst (tick_step start p s w))"
    using Cons.prems by (simp add: tick_step_in_range)
  ultimately show ?case
    by (simp add: case_prod_unfold Let_def)
qed

lemma tick_task_progress:
  assumes "t_status t = Running"
  shows "t_progress (fst (tick_task t w))
     = (if list_all (\<lambda>s. s_status s = Complete) (t_steps (fst (tick_task t w)))
           \<or> 100 \<le> min 100 (fadd (t_progress t) (fmul (rnd w (rnd_pos w)) 6))
        then 100
        else min 100 (fadd (t_progress t) (fmul (rnd w (rnd_pos w)) 6)))"
proof -
  define p where "p = min 100 (fadd (t_progress t) (fmul (rnd w (rnd_pos w)) 6))"
  define res where "res = tick_steps (t_startTime t) p (t_steps t) (w\<lparr>rnd_pos := Suc (rnd_pos w)\<rparr>)"
  define complete where "complete = (list_all (\<lambda>s. s_status s = Complete) (fst res) \<or> p \<ge> 100)"
  have prog: "t_progress (fst (tick_task t w)) = (if complete then 100 else p)"
    and stps: "t_steps (fst (tick_task t w)) = fst res"
    unfolding tick_task_running [OF assms] Let_def p_def res_def complete_def by simp_all
  show ?thesis
    unfolding prog stps p_def [symmetric] complete_def by simp
qed

lemma tick_task_in_range:
  assumes "unit_source w" "task_in_range t"
  shows "task_in_range (fst (tick_task t w))"
proof (cases "t_status t = Running")
  case False
  with assms(2) show ?thesis
    by (simp add: tick_task_def)
next
  case True
  define x where "x = fadd (t_progress t) (fmul (rnd w (rnd_pos w)) 6)"
  have r: "0 \<le> rnd w (rnd_pos w)" "rnd w (rnd_pos w) < 1"
    using assms(1) by simp_all
  have "0 \<le> fmul (rnd w (rnd_pos w)) 6"
    using fmul_unit_range [OF r] by simp
  moreover have "0 \<le> t_progress t"
    using assms(2) by (simp add: task_in_range_def)
  ultimately have "0 \<le> x"
    unfolding x_def by (intro fadd_nonneg)
  then have "0 \<le> min 100 x" and "min 100 x \<le> 100"
    by simp_all
  then have "0 \<le> t_progress (fst (tick_task t w)) \<and> t_progress (fst (tick_task t w)) \<le> 100"
    unfolding tick_task_progress [OF True] x_def [symmetric] by simp
  moreover have "list_all step_in_range (t_steps (fst (tick_task t w)))"
    unfolding tick_task_steps [OF True]
    using assms by (intro tick_steps_in_range) (simp_all add: task_in_range_def)
  ultimately show ?thesis
    by (simp add: task_in_range_def)
qed

lemma tick_in_range:
  "unit_source w \<Longrightarrow> list_all task_in_range ts \<Longrightarrow> list_all task_in_range (fst (tick ts w))"
proof (induction ts arbitrary: w)
  case Nil
  show ?case by simp
next
  case (Cons t ts)
  have "unit_source (snd (tick_task t w))"
    using Cons.prems(1) by (simp add: tick_task_rnd)
  moreover have "list_all task_in_range ts"
    using Cons.prems(2) by simp
  ultimately have "list_all task_in_range (fst (tick ts (snd (tick_task t w))))"
    by (rule Cons.IH)
  moreover have "task_in_range (fst (tick_task t w))"
    using Cons.prems by (simp add: tick_task_in_range)
  ultimately show ?case
    by (simp add: case_prod_unfold Let_def)
qed

lemma ticks_in_range:
  "unit_source w \<Longrightarrow> list_all task_in_range ts \<Longrightarrow> list_all task_in_range (fst (ticks n ts w))"
proof (induction n arbitrary: ts w)
  case 0
  then show ?case by simp
next
  case (Suc n)
  have "unit_source (snd (tick ts w))"
    using Suc.prems(1) by (simp add: tick_rnd)
  moreover have "list_all task_in_range (fst (tick ts w))"
    using Suc.prems by (rule tick_in_range)
  ultimately have "list_all task_in_range (fst (ticks n (fst (tick ts w)) (snd (tick ts w))))"
    by (rule Suc.IH)
  then show ?case
    by (simp add: case_prod_unfold Let_def)
qed

text \<open>
  C3, amended. With a random source that returns numbers of \<open>[0, 1)\<close>, a collection
  whose task and step progress values lie within \<open>[0, 100]\<close> keeps them there for every
  number of ticks. \<open>n + 1\<close> ticks are one tick followed by \<open>n\<close> ticks; a tick gives
  each task, from left to right, to \<open>tick_task\<close>; on a running task \<open>tick_task\<close>
  gives each step, from left to right, to \<open>tick_step\<close>, with the task's incremented
  progress. The task's progress after the tick is its prior progress plus the drawn
  number times 6, an amount within \<open>[0, 6]\<close>, capped at 100, or exactly 100 when the
  steps are all complete after the tick; the progress of a running step is its prior
  progress (0 when unset) plus the next drawn number times 10, an amount within
  \<open>[0, 10]\<close>, capped at 100. The sums and products are those of binary64 numbers, and
  the random source is the same at every draw.
\<close>

theorem progress_within_bounds:
  assumes "\<forall>i. 0 \<le> rnd w i \<and> rnd w i < 1"
    and "list_all task_in_range ts"
  shows "list_all task_in_range (fst (ticks n ts w))
         \<and> ticks (Suc n) ts w = ticks n (fst (tick ts w)) (snd (tick ts w))
         \<and> length (fst (tick ts w)) = length ts
         \<and> (i < length ts \<longrightarrow>
              fst (tick ts w) ! i = fst (tick_task (ts ! i) (snd (tick (take i ts) w))))
         \<and> (t_status t = Running \<longrightarrow>
              t_progress (fst (tick_task t w))
                = (if list_all (\<lambda>s. s_status s = Complete) (t_steps (fst (tick_task t w)))
                      \<or> 100 \<le> min 100 (fadd (t_progress t) (fmul (rnd w (rnd_pos w)) 6))
                   then 100
                   else min 100 (fadd (t_progress t) (fmul (rnd w (rnd_pos w)) 6)))
              \<and> length (t_steps (fst (tick_task t w))) = length (t_steps t)
              \<and> (j < length (t_steps t) \<longrightarrow>
                   t_steps (fst (tick_task t w)) ! j
                     = fst (tick_step (t_startTime t)
                              (min 100 (fadd (t_progress t) (fmul (rnd w (rnd_pos w)) 6)))
                              (t_steps t ! j)
                              (snd (tick_steps (t_startTime t)
                                      (min 100 (fadd (t_progress t) (fmul (rnd w (rnd_pos w)) 6)))
                                      (take j (t_steps t)) (w\<lparr>rnd_pos := Suc (rnd_pos w)\<rparr>))))))
         \<and> (s_status s = Running \<longrightarrow>
              s_progress (fst (tick_step start p s w))
                = Some (min 100 (fadd (or_num (s_progress s) 0) (fmul (rnd w (rnd_pos w)) 10))))
         \<and> 0 \<le> fmul (rnd w k) 6 \<and> fmul (rnd w k) 6 \<le> 6
         \<and> 0 \<le> fmul (rnd w k) 10 \<and> fmul (rnd w k) 10 \<le> 10
         \<and> rnd (snd (tick ts w)) = rnd w
         \<and> rnd (snd (tick_steps start p ss w)) = rnd w"
proof -
  have inv: "list_all task_in_range (fst (ticks n ts w))"
    using assms by (rule ticks_in_range)
  have step: "ticks (Suc n) ts w = ticks n (fst (tick ts w)) (snd (tick ts w))"
    by (simp add: case_prod_unfold Let_def)
  have len: "length (fst (tick ts w)) = length ts"
    by (rule tick_length)
  have nth: "i < length ts \<longrightarrow>
      fst (tick ts w) ! i = fst (tick_task (ts ! i) (snd (tick (take i ts) w)))"
    by (simp add: tick_nth)
  have task: "t_status t = Running \<longrightarrow>
      t_progress (fst (tick_task t w))
        = (if list_all (\<lambda>s. s_status s = Complete) (t_steps (fst (tick_task t w)))
              \<or> 100 \<le> min 100 (fadd (t_progress t) (fmul (rnd w (rnd_pos w)) 6))
           then 100
           else min 100 (fadd (t_progress t) (fmul (rnd w (rnd_pos w)) 6)))
      \<and> length (t_steps (fst (tick_task t w))) = length (t_steps t)
      \<and> (j < length (t_steps t) \<longrightarrow>
           t_steps (fst (tick_task t w)) ! j
             = fst (tick_step (t_startTime t)
                      (min 100 (fadd (t_progress t) (fmul (rnd w (rnd_pos w)) 6)))
                      (t_steps t ! j)
                      (snd (tick_steps (t_startTime t)
                              (min 100 (fadd (t_progress t) (fmul (rnd w (rnd_pos w)) 6)))
                              (take j (t_steps t)) (w\<lparr>rnd_pos := Suc (rnd_pos w)\<rparr>)))))"
  proof
    assume run: "t_status t = Running"
    show "t_progress (fst (tick_task t w))
        = (if list_all (\<lambda>s. s_status s = Complete) (t_steps (fst (tick_task t w)))
              \<or> 100 \<le> min 100 (fadd (t_progress t) (fmul (rnd w (rnd_pos w)) 6))
           then 100
           else min 100 (fadd (t_progress t) (fmul (rnd w (rnd_pos w)) 6)))
      \<and> length (t_steps (fst (tick_task t w))) = length (t_steps t)
      \<and> (j < length (t_steps t) \<longrightarrow>
           t_steps (fst (tick_task t w)) ! j
             = fst (tick_step (t_startTime t)
                      (min 100 (fadd (t_progress t) (fmul (rnd w (rnd_pos w)) 6)))
                      (t_steps t ! j)
                      (snd (tick_steps (t_startTime t)
                              (min 100 (fadd (t_progress t) (fmul (rnd w (rnd_pos w)) 6)))
                              (take j (t_steps t)) (w\<lparr>rnd_pos := Suc (rnd_pos w)\<rparr>)))))"
      using tick_task_progress [OF run, of w]
      by (simp add: tick_task_steps [OF run] tick_steps_length tick_steps_nth)
  qed
  have stp: "s_status s = Running \<longrightarrow>
      s_progress (fst (tick_step start p s w))
        = Some (min 100 (fadd (or_num (s_progress s) 0) (fmul (rnd w (rnd_pos w)) 10)))"
    by (simp add: tick_step_running)
  have "0 \<le> rnd w k" "rnd w k < 1"
    using assms(1) by simp_all
  then have amounts: "0 \<le> fmul (rnd w k) 6 \<and> fmul (rnd w k) 6 \<le> 6
      \<and> 0 \<le> fmul (rnd w k) 10 \<and> fmul (rnd w k) 10 \<le> 10"
    by (rule fmul_unit_range)
  have src: "rnd (snd (tick ts w)) = rnd w" "rnd (snd (tick_steps start p ss w)) = rnd w"
    by (rule tick_rnd, rule tick_steps_rnd)
  from inv step len nth task stp amounts src show ?thesis
    by (intro conjI) blast+
qed

theorem progress_within_bounds_witness:
  "(\<forall>i. 0 \<le> rnd (const_world (1 / 2) 9000) i \<and> rnd (const_world (1 / 2) 9000) i < 1)
   \<and> list_all task_in_range (fst (seedTasks (const_world 0 0)))
   \<and> list_all task_in_range (fst (ticks 40 (fst (seedTasks (const_world 0 0))) (const_world (1 / 2) 9000)))
   \<and> fst (tick (fst (seedTasks (const_world 0 0))) (const_world (1 / 2) 9000)) ! 0
       = fst (tick_task (fst (seedTasks (const_world 0 0)) ! 0) (const_world (1 / 2) 9000))
   \<and> t_progress (fst (tick_task (fst (seedTasks (const_world 0 0)) ! 0) (const_world (1 / 2) 9000))) = 45
   \<and> s_progress (t_steps (fst (tick_task (fst (seedTasks (const_world 0 0)) ! 0)
        (const_world (1 / 2) 9000))) ! 1) = Some 40"
proof -
  let ?w = "const_world (1 / 2) 9000"
  let ?w1 = "?w\<lparr>rnd_pos := Suc (rnd_pos ?w)\<rparr>"
  let ?ts = "fst (seedTasks (const_world 0 0))"
  let ?t = "?ts ! 0"
  let ?s = "t_steps ?t ! 1"
  have src: "\<forall>i. 0 \<le> rnd ?w i \<and> rnd ?w i < 1"
    by (simp add: const_world_def)
  have src1: "\<forall>i. 0 \<le> rnd ?w1 i \<and> rnd ?w1 i < 1"
    by (simp add: const_world_def)
  have rng: "list_all task_in_range ?ts"
    by (simp add: seedTasks_def const_world_def date_now_def task_in_range_def step_in_range_def)
  have len: "0 < length ?ts" "take 0 ?ts = []"
    by (simp_all add: seedTasks_def const_world_def date_now_def)
  have run: "t_status ?t = Running" "t_progress ?t = 42"
    by (simp_all add: seedTasks_def const_world_def date_now_def)
  have r: "rnd ?w (rnd_pos ?w) = 1 / 2" "rnd ?w1 (rnd_pos ?w1) = 1 / 2"
    by (simp_all add: const_world_def)
  have sums: "fadd 42 (fmul (1 / 2) 6) = 45" "fadd 35 (fmul (1 / 2) 10) = 40"
    by (simp_all add: number_eval)
  have steps: "1 < length (t_steps ?t)" "2 < length (t_steps ?t)"
    "list_all (\<lambda>s. s_status s = Complete) (take 1 (t_steps ?t))"
    "s_status ?s = Running" "s_progress ?s = Some 35"
    "s_status (t_steps ?t ! 2) = Queued"
    by (simp_all add: seedTasks_def const_world_def date_now_def)
  have low: "\<forall>k. rnd ?w k \<le> 7 / 10"
    by (simp add: const_world_def)
  have same: "t_steps (fst (tick_task ?t ?w)) ! 2 = t_steps ?t ! 2"
    using run(1) steps(2) steps(6) low by (rule queued_stays)
  have "2 < length (t_steps (fst (tick_task ?t ?w)))"
    using steps(2) by (simp add: tick_task_steps [OF run(1)] tick_steps_length)
  moreover have "s_status (t_steps (fst (tick_task ?t ?w)) ! 2) \<noteq> Complete"
    unfolding same steps(6) by simp
  ultimately have open_step:
    "\<not> list_all (\<lambda>s. s_status s = Complete) (t_steps (fst (tick_task ?t ?w)))"
    unfolding list_all_length by blast
  note main = progress_within_bounds [OF src rng, where n = 40 and i = 0 and t = ?t and j = 1]
  have inv: "list_all task_in_range (fst (ticks 40 ?ts ?w))"
    using main by blast
  have "0 < length ?ts \<longrightarrow>
      fst (tick ?ts ?w) ! 0 = fst (tick_task ?t (snd (tick (take 0 ?ts) ?w)))"
    using main by blast
  then have first: "fst (tick ?ts ?w) ! 0 = fst (tick_task ?t ?w)"
    using len(1) unfolding len(2) by simp
  have task: "t_progress (fst (tick_task ?t ?w))
        = (if list_all (\<lambda>s. s_status s = Complete) (t_steps (fst (tick_task ?t ?w)))
              \<or> 100 \<le> min 100 (fadd (t_progress ?t) (fmul (rnd ?w (rnd_pos ?w)) 6))
           then 100
           else min 100 (fadd (t_progress ?t) (fmul (rnd ?w (rnd_pos ?w)) 6)))"
    and "1 < length (t_steps ?t) \<longrightarrow>
           t_steps (fst (tick_task ?t ?w)) ! 1
             = fst (tick_step (t_startTime ?t)
                      (min 100 (fadd (t_progress ?t) (fmul (rnd ?w (rnd_pos ?w)) 6)))
                      (t_steps ?t ! 1)
                      (snd (tick_steps (t_startTime ?t)
                              (min 100 (fadd (t_progress ?t) (fmul (rnd ?w (rnd_pos ?w)) 6)))
                              (take 1 (t_steps ?t)) ?w1)))"
    using main run(1) by blast+
  then have at1: "t_steps (fst (tick_task ?t ?w)) ! 1
      = fst (tick_step (t_startTime ?t) (min 100 45) ?s
          (snd (tick_steps (t_startTime ?t) (min 100 45) (take 1 (t_steps ?t)) ?w1)))"
    using steps(1) unfolding run(2) r(1) sums by blast
  have prog: "t_progress (fst (tick_task ?t ?w)) = 45"
    using task open_step unfolding run(2) r(1) sums by simp
  have at1': "t_steps (fst (tick_task ?t ?w)) ! 1 = fst (tick_step (t_startTime ?t) (min 100 45) ?s ?w1)"
    unfolding at1 tick_steps_all_complete [OF steps(3)] by simp
  have "s_status ?s = Running \<longrightarrow>
      s_progress (fst (tick_step (t_startTime ?t) (min 100 45) ?s ?w1))
        = Some (min 100 (fadd (or_num (s_progress ?s) 0) (fmul (rnd ?w1 (rnd_pos ?w1)) 10)))"
    using progress_within_bounds [OF src1 rng, where s = ?s and start = "t_startTime ?t" and p = "min 100 45"]
    by blast
  then have "s_progress (fst (tick_step (t_startTime ?t) (min 100 45) ?s ?w1))
        = Some (min 100 (fadd (or_num (Some 35) 0) (fmul (1 / 2) 10)))"
    using steps(4) unfolding steps(5) r(2) by blast
  then have "s_progress (fst (tick_step (t_startTime ?t) (min 100 45) ?s ?w1)) = Some 40"
    by (simp add: sums)
  then have stp: "s_progress (t_steps (fst (tick_task ?t ?w)) ! 1) = Some 40"
    unfolding at1' .
  from src rng inv first prog stp show ?thesis
    by blast
qed

text \<open>
  C3 as stated fails where a tick completes the task through its steps: the task made
  from an empty step array has progress 5, and its first tick sets the progress to 100,
  an increase of 95.
\<close>

theorem progress_jump_counterexample:
  "t_status (fst (makeTask (js ''Audit Logs'') None (Some []) (const_world 0 0))) = Running
   \<and> t_progress (fst (makeTask (js ''Audit Logs'') None (Some []) (const_world 0 0))) = 5
   \<and> t_progress (fst (tick_task (fst (makeTask (js ''Audit Logs'') None (Some []) (const_world 0 0)))
        (const_world 0 1000))) = 100
   \<and> \<not> t_progress (fst (tick_task (fst (makeTask (js ''Audit Logs'') None (Some []) (const_world 0 0)))
        (const_world 0 1000)))
       \<le> t_progress (fst (makeTask (js ''Audit Logs'') None (Some []) (const_world 0 0))) + 6"
proof -
  let ?t = "fst (makeTask (js ''Audit Logs'') None (Some []) (const_world 0 0))"
  have mk: "t_status ?t = Running" "t_progress ?t = 5" "t_steps ?t = []"
    by (simp_all add: makeTask_def date_now_def Let_def)
  have "t_progress (fst (tick_task ?t (const_world 0 1000))) = 100"
    by (simp add: tick_task_progress [OF mk(1)] tick_task_steps [OF mk(1)] mk(3))
  with mk show ?thesis
    by simp
qed

section \<open>Queued and complete steps\<close>

text \<open>
  C9, amended. In a tick a queued step becomes \<open>running\<close> exactly when the task's
  progress incremented in this tick exceeds 10 and the number then drawn from the
  random source exceeds 7/10. On promotion its progress is its prior value when that is
  set and not zero, and 5 otherwise, and its duration is computed from the task's start
  time. A queued step whose condition does not fire, and every complete step, is left
  as it is.
\<close>

theorem queued_step_promotion:
  assumes "s_status s = Queued"
  shows "(s_status (fst (tick_step start p s w)) = Running
            \<longleftrightarrow> p > 10 \<and> rnd w (rnd_pos w) > 7 / 10)
         \<and> (p > 10 \<and> rnd w (rnd_pos w) > 7 / 10 \<longrightarrow>
              fst (tick_step start p s w)
                = s\<lparr>s_status := Running,
                    s_progress := Some (case s_progress s of
                                          None \<Rightarrow> 5
                                        | Some v \<Rightarrow> if v = 0 then 5 else v),
                    s_duration := Some (fst (calcDuration start (w\<lparr>rnd_pos := Suc (rnd_pos w)\<rparr>)))\<rparr>)
         \<and> (\<not> (p > 10 \<and> rnd w (rnd_pos w) > 7 / 10) \<longrightarrow> fst (tick_step start p s w) = s)
         \<and> (s_status c = Complete \<longrightarrow> tick_step start p c w = (c, w))"
proof -
  have seed: "or_num (s_progress s) 5 = (case s_progress s of None \<Rightarrow> 5 | Some v \<Rightarrow> if v = 0 then 5 else v)"
    by (cases "s_progress s") simp_all
  have "s_status c = Complete \<longrightarrow> tick_step start p c w = (c, w)"
    by (simp add: tick_step_def)
  then show ?thesis
    using assms by (simp add: tick_step_queued seed)
qed

theorem queued_step_promotion_witness:
  "s_status (t_steps (fst (seedTasks (const_world 0 0)) ! 0) ! 2) = Queued
   \<and> s_status (fst (tick_step 0 45 (t_steps (fst (seedTasks (const_world 0 0)) ! 0) ! 2)
        (const_world (9 / 10) 9000))) = Running
   \<and> s_progress (fst (tick_step 0 45 (t_steps (fst (seedTasks (const_world 0 0)) ! 0) ! 2)
        (const_world (9 / 10) 9000))) = Some 5
   \<and> s_duration (fst (tick_step 0 45 (t_steps (fst (seedTasks (const_world 0 0)) ! 0) ! 2)
        (const_world (9 / 10) 9000))) = Some (js ''9s'')
   \<and> fst (tick_step 0 45 (t_steps (fst (seedTasks (const_world 0 0)) ! 0) ! 2)
        (const_world (1 / 2) 9000)) = t_steps (fst (seedTasks (const_world 0 0)) ! 0) ! 2
   \<and> fst (tick_step 0 10 (t_steps (fst (seedTasks (const_world 0 0)) ! 0) ! 2)
        (const_world (9 / 10) 9000)) = t_steps (fst (seedTasks (const_world 0 0)) ! 0) ! 2
   \<and> tick_step 0 45 (t_steps (fst (seedTasks (const_world 0 0)) ! 0) ! 0) (const_world (9 / 10) 9000)
       = (t_steps (fst (seedTasks (const_world 0 0)) ! 0) ! 0, const_world (9 / 10) 9000)"
proof -
  let ?q = "t_steps (fst (seedTasks (const_world 0 0)) ! 0) ! 2"
  let ?c = "t_steps (fst (seedTasks (const_world 0 0)) ! 0) ! 0"
  have q: "s_status ?q = Queued" "s_progress ?q = None"
    by (simp_all add: seedTasks_def const_world_def date_now_def)
  have c: "s_status ?c = Complete"
    by (simp add: seedTasks_def const_world_def date_now_def)
  have r: "rnd (const_world (9 / 10) 9000) (rnd_pos (const_world (9 / 10) 9000)) = 9 / 10"
    "rnd (const_world (1 / 2) 9000) (rnd_pos (const_world (1 / 2) 9000)) = 1 / 2"
    by (simp_all add: const_world_def)
  have sec: "nat (max 0 (math_round (fdiv (fsub 9000 0) 1000))) = 9"
    by (simp add: math_round_def number_eval)
  have d: "fst (calcDuration 0 ((const_world (9 / 10) 9000)\<lparr>rnd_pos := Suc (rnd_pos (const_world (9 / 10) 9000))\<rparr>)) = js ''9s''"
    by (simp add: calcDuration_def date_now_def const_world_def sec js_def)
  show ?thesis
    using q c
      queued_step_promotion [OF q(1), of 0 45 "const_world (9 / 10) 9000" ?c]
      queued_step_promotion [OF q(1), of 0 45 "const_world (1 / 2) 9000" ?c]
      queued_step_promotion [OF q(1), of 0 10 "const_world (9 / 10) 9000" ?c]
    unfolding r d by simp
qed

text \<open>
  C9 as stated fails for a queued step whose progress is set to 0: \<open>step.progress || 5\<close>
  seeds it at 5, not at its prior value.
\<close>

theorem queued_step_zero_counterexample:
  "s_status (fst (tick_step 0 45
       \<lparr> s_name = js ''Anomaly Check'', s_status = Queued, s_llm = js ''Kimi K2'',
          s_progress = Some 0, s_duration = None \<rparr> (const_world (9 / 10) 9000))) = Running
   \<and> s_progress (fst (tick_step 0 45
       \<lparr> s_name = js ''Anomaly Check'', s_status = Queued, s_llm = js ''Kimi K2'',
          s_progress = Some 0, s_duration = None \<rparr> (const_world (9 / 10) 9000))) = Some 5"
  by (simp add: tick_step_queued const_world_def)

section \<open>Lines of a text\<close>

lemma split_go_nonempty: "split_go sep s \<noteq> []"
  by (induction sep s rule: split_go.induct) (auto split: list.splits)

lemma split_go_single:
  "split_go [n] (c # cs) =
     (if c = n then [] # split_go [n] cs
      else (c # hd (split_go [n] cs)) # tl (split_go [n] cs))"
  using split_go_nonempty [of "[n]" cs] by (auto split: list.splits)

lemma split_go_append:
  "split_go [n] (xs @ ys) =
     butlast (split_go [n] xs) @ [last (split_go [n] xs) @ hd (split_go [n] ys)] @ tl (split_go [n] ys)"
proof (induction xs)
  case Nil
  show ?case
    using split_go_nonempty [of "[n]" ys] by simp
next
  case (Cons c cs)
  obtain a as where A: "split_go [n] cs = a # as"
    using split_go_nonempty [of "[n]" cs] by (cases "split_go [n] cs") auto
  show ?case
  proof (cases "c = n")
    case True
    then show ?thesis
      using Cons.IH A by (simp only: append_Cons split_go_single) simp
  next
    case False
    then show ?thesis
      using Cons.IH A by (simp only: append_Cons split_go_single) (cases as; simp)
  qed
qed

lemma after_digit_append:
  "\<not> is_digit c \<Longrightarrow> c \<noteq> 0x2E \<Longrightarrow> after_digit (l @ c # r) = after_digit l"
  by (induction l) simp_all

lemma test_numbered_append:
  "\<not> is_digit c \<Longrightarrow> c \<noteq> 0x2E \<Longrightarrow> test_numbered (l @ c # r) = test_numbered l"
  by (cases l) (simp_all add: after_digit_append)

lemma contains_sub_append: "contains_sub ys p \<Longrightarrow> contains_sub (xs @ ys) p"
  by (induction xs) simp_all

lemma find_skip: "\<forall>x\<in>set xs. \<not> P x \<Longrightarrow> find P (xs @ ys) = find P ys"
  by (induction xs) simp_all


section \<open>The reply template and its round trip\<close>

lemma planReply_shape:
  "planReply text_in =
     js ''Here is a concise pipeline for '' @ [ldquo] @ text_in @ [rdquo] @ js '':'' @ [nl, nl]
     @ js ''1. Ingest Inputs'' @ dash_sep @ js ''GPT-4'' @ [nl]
     @ js ''2. Plan & Branch'' @ dash_sep @ js ''Claude Sonnet 4.5'' @ [nl]
     @ js ''3. Execute Tools'' @ dash_sep @ js ''Kimi K2'' @ [nl]
     @ js ''4. Verify & Report'' @ dash_sep @ js ''GPT-4''
     @ [nl, nl] @ js ''You can start as-is or ask me to adjust steps/LLMs.''"
  by (simp add: planReply_def base_def plan_line_def enumerate_eq_zip js_def)

lemma reply_numbered_lines:
  assumes "\<forall>l\<in>set (tl (split text_in [nl])). \<not> test_numbered l"
  shows "filter test_numbered (split (planReply text_in) [nl]) =
           [js ''1. Ingest Inputs'' @ dash_sep @ js ''GPT-4'',
            js ''2. Plan & Branch'' @ dash_sep @ js ''Claude Sonnet 4.5'',
            js ''3. Execute Tools'' @ dash_sep @ js ''Kimi K2'',
            js ''4. Verify & Report'' @ dash_sep @ js ''GPT-4'']"
proof -
  define A where "A = js ''Here is a concise pipeline for '' @ [ldquo]"
  define B' where "B' = js '':'' @ [nl, nl]
     @ js ''1. Ingest Inputs'' @ dash_sep @ js ''GPT-4'' @ [nl]
     @ js ''2. Plan & Branch'' @ dash_sep @ js ''Claude Sonnet 4.5'' @ [nl]
     @ js ''3. Execute Tools'' @ dash_sep @ js ''Kimi K2'' @ [nl]
     @ js ''4. Verify & Report'' @ dash_sep @ js ''GPT-4''
     @ [nl, nl] @ js ''You can start as-is or ask me to adjust steps/LLMs.''"
  define four where "four =
           [js ''1. Ingest Inputs'' @ dash_sep @ js ''GPT-4'',
            js ''2. Plan & Branch'' @ dash_sep @ js ''Claude Sonnet 4.5'',
            js ''3. Execute Tools'' @ dash_sep @ js ''Kimi K2'',
            js ''4. Verify & Report'' @ dash_sep @ js ''GPT-4'']"
  define T where "T = split_go [nl] text_in"
  define SB where "SB = split_go [nl] (rdquo # B')"
  have reply: "planReply text_in = A @ (text_in @ rdquo # B')"
    by (simp add: planReply_shape A_def B'_def)
  have SA: "split_go [nl] A = [A]"
    by (simp add: A_def js_def nl_def ldquo_def)
  have A_head: "\<not> test_numbered (A @ x)" for x
    by (simp add: A_def js_def is_digit_def)
  have SB_hd: "hd SB = [rdquo, 0x3A]"
    by (simp add: SB_def B'_def js_def nl_def rdquo_def dash_sep_def em_dash_def)
  have SB_tl: "filter test_numbered (tl SB) = four"
    by (simp add: SB_def B'_def four_def js_def nl_def rdquo_def dash_sep_def em_dash_def is_digit_def)
  have rq: "\<not> test_numbered l \<Longrightarrow> \<not> test_numbered (l @ [rdquo, 0x3A])" for l
    using test_numbered_append [of rdquo l "[0x3A]"] by (simp add: rdquo_def is_digit_def)
  have T_ne: "T \<noteq> []"
    by (simp add: T_def split_go_nonempty)
  have hyp: "\<forall>l\<in>set (tl T). \<not> test_numbered l"
    using assms by (simp add: T_def split_def)
  define X where "X = butlast T @ [last T @ hd SB] @ tl SB"
  have X: "split_go [nl] (text_in @ rdquo # B') = X"
    by (simp add: X_def T_def SB_def split_go_append)
  have X_ne: "X \<noteq> []"
    by (simp add: X_def)
  have whole: "split (planReply text_in) [nl] = (A @ hd X) # tl X"
    by (simp add: split_def reply split_go_append [of nl A] SA X)
  have tail: "filter test_numbered (tl X) = four"
  proof (cases "tl T")
    case Nil
    with T_ne have "butlast T = []"
      by (cases T) simp_all
    then show ?thesis
      by (simp add: X_def SB_tl)
  next
    case (Cons u us)
    with T_ne obtain t where T: "T = t # u # us"
      by (cases T) simp_all
    have mid: "\<forall>l\<in>set (butlast (u # us)). \<not> test_numbered l"
      using hyp T by (auto dest: in_set_butlastD)
    have "\<not> test_numbered (last (u # us))"
      using hyp T last_in_set [of "u # us"] by auto
    then have lst: "\<not> test_numbered (last (u # us) @ hd SB)"
      unfolding SB_hd by (rule rq)
    have "tl X = butlast (u # us) @ [last (u # us) @ hd SB] @ tl SB"
      by (simp add: X_def T)
    then show ?thesis
      using mid lst SB_tl by simp
  qed
  show ?thesis
    unfolding whole four_def [symmetric] using A_head tail by simp
qed


lemma four_lines_parsed:
  "map_lines
     [js ''1. Ingest Inputs'' @ dash_sep @ js ''GPT-4'',
      js ''2. Plan & Branch'' @ dash_sep @ js ''Claude Sonnet 4.5'',
      js ''3. Execute Tools'' @ dash_sep @ js ''Kimi K2'',
      js ''4. Verify & Report'' @ dash_sep @ js ''GPT-4'']
   = Inr [\<lparr> s_name = js ''Ingest Inputs'', s_status = Queued, s_llm = js ''GPT-4'',
              s_progress = None, s_duration = None \<rparr>,
          \<lparr> s_name = js ''Plan & Branch'', s_status = Queued, s_llm = js ''Claude Sonnet 4.5'',
              s_progress = None, s_duration = None \<rparr>,
          \<lparr> s_name = js ''Execute Tools'', s_status = Queued, s_llm = js ''Kimi K2'',
              s_progress = None, s_duration = None \<rparr>,
          \<lparr> s_name = js ''Verify & Report'', s_status = Queued, s_llm = js ''GPT-4'',
              s_progress = None, s_duration = None \<rparr>]"
  by (simp add: parse_line_def split_def trim_def is_space_def js_def dash_sep_def em_dash_def)

lemma reply_triggers: "test_1dot (planReply text_in)"
proof -
  have "contains_sub (js ''1. Ingest Inputs'' @ r) (js ''1.'')" for r
    by (simp add: js_def)
  then have "contains_sub ((js ''Here is a concise pipeline for '' @ [ldquo] @ text_in @ [rdquo]
      @ js '':'' @ [nl, nl]) @ js ''1. Ingest Inputs'' @ r) (js ''1.'')" for r
    by (rule contains_sub_append)
  then show ?thesis
    unfolding test_1dot_def planReply_shape by simp
qed

text \<open>
  C7, amended. For every input text, \<open>planReply\<close> returns the template with the four
  numbered lines of the fixed steps. For every input text none of whose lines after the
  first begins with digits followed by a dot (every text without a line break is one),
  \<open>derivePipeline\<close> on a transcript whose most recent ai message is that reply returns
  exactly the four steps in order, the first running and the other three queued.
\<close>

theorem planReply_roundtrip:
  assumes "\<forall>l\<in>set (tl (split text_in [nl])). \<not> test_numbered l"
    and "\<forall>m\<in>set later. m_role m = User"
  shows "planReply text_in =
           js ''Here is a concise pipeline for '' @ [ldquo] @ text_in @ [rdquo] @ js '':'' @ [nl, nl]
           @ js ''1. Ingest Inputs'' @ dash_sep @ js ''GPT-4'' @ [nl]
           @ js ''2. Plan & Branch'' @ dash_sep @ js ''Claude Sonnet 4.5'' @ [nl]
           @ js ''3. Execute Tools'' @ dash_sep @ js ''Kimi K2'' @ [nl]
           @ js ''4. Verify & Report'' @ dash_sep @ js ''GPT-4''
           @ [nl, nl] @ js ''You can start as-is or ask me to adjust steps/LLMs.''
         \<and> derivePipeline (earlier @ [\<lparr>m_role = AI, m_text = planReply text_in\<rparr>] @ later) =
             Inr (Some
               [\<lparr> s_name = js ''Ingest Inputs'', s_status = Running, s_llm = js ''GPT-4'',
                   s_progress = None, s_duration = None \<rparr>,
                \<lparr> s_name = js ''Plan & Branch'', s_status = Queued, s_llm = js ''Claude Sonnet 4.5'',
                   s_progress = None, s_duration = None \<rparr>,
                \<lparr> s_name = js ''Execute Tools'', s_status = Queued, s_llm = js ''Kimi K2'',
                   s_progress = None, s_duration = None \<rparr>,
                \<lparr> s_name = js ''Verify & Report'', s_status = Queued, s_llm = js ''GPT-4'',
                   s_progress = None, s_duration = None \<rparr>])"
proof -
  let ?m = "\<lparr>m_role = AI, m_text = planReply text_in\<rparr>"
  let ?P = "\<lambda>m. m_role m = AI \<and> test_1dot (m_text m)"
  have "\<forall>m\<in>set (rev later). \<not> ?P m"
    using assms(2) by simp
  then have "find ?P (rev later @ ?m # rev earlier) = find ?P (?m # rev earlier)"
    by (rule find_skip)
  then have sel: "find ?P (rev (earlier @ [?m] @ later)) = Some ?m"
    by (simp add: reply_triggers)
  have "derivePipeline (earlier @ [?m] @ later) =
          (case map_lines (filter test_numbered (split (planReply text_in) [nl])) of
             Inl e \<Rightarrow> Inl e
           | Inr steps \<Rightarrow> Inr (Some (start_first steps)))"
    unfolding derivePipeline_def sel by simp
  then show ?thesis
    unfolding reply_numbered_lines [OF assms(1)] four_lines_parsed
    by (simp add: planReply_shape)
qed

theorem planReply_roundtrip_witness:
  "tl (split (js ''Audit logs'' @ [nl] @ js ''then 2. report'') [nl]) = [js ''then 2. report'']
   \<and> test_numbered (js ''then 2. report'') = False
   \<and> derivePipeline
        ([\<lparr>m_role = AI, m_text = js ''Describe your ops task.''\<rparr>,
          \<lparr>m_role = User, m_text = js ''Audit logs'' @ [nl] @ js ''then 2. report''\<rparr>]
         @ [\<lparr>m_role = AI, m_text = planReply (js ''Audit logs'' @ [nl] @ js ''then 2. report'')\<rparr>]
         @ [\<lparr>m_role = User, m_text = js ''ok''\<rparr>]) =
       Inr (Some
         [\<lparr> s_name = js ''Ingest Inputs'', s_status = Running, s_llm = js ''GPT-4'',
             s_progress = None, s_duration = None \<rparr>,
          \<lparr> s_name = js ''Plan & Branch'', s_status = Queued, s_llm = js ''Claude Sonnet 4.5'',
             s_progress = None, s_duration = None \<rparr>,
          \<lparr> s_name = js ''Execute Tools'', s_status = Queued, s_llm = js ''Kimi K2'',
             s_progress = None, s_duration = None \<rparr>,
          \<lparr> s_name = js ''Verify & Report'', s_status = Queued, s_llm = js ''GPT-4'',
             s_progress = None, s_duration = None \<rparr>])"
proof -
  have lines: "\<forall>l\<in>set (tl (split (js ''Audit logs'' @ [nl] @ js ''then 2. report'') [nl])). \<not> test_numbered l"
    by (simp add: split_def js_def nl_def is_digit_def)
  have users: "\<forall>m\<in>set [\<lparr>m_role = User, m_text = js ''ok''\<rparr>]. m_role m = User"
    by simp
  have second: "tl (split (js ''Audit logs'' @ [nl] @ js ''then 2. report'') [nl]) = [js ''then 2. report'']"
    "test_numbered (js ''then 2. report'') = False"
    by (simp_all add: split_def js_def nl_def is_digit_def)
  show ?thesis
    using second
      planReply_roundtrip [OF lines users,
        of "[\<lparr>m_role = AI, m_text = js ''Describe your ops task.''\<rparr>,
             \<lparr>m_role = User, m_text = js ''Audit logs'' @ [nl] @ js ''then 2. report''\<rparr>]"]
    by blast
qed

text \<open>
  C7 as stated fails for an input text with a numbered line of its own after a line
  break: that line is parsed as a step too, with the template's closing quote and colon
  in its label, and it becomes the running first step.
\<close>

theorem planReply_roundtrip_counterexample:
  "derivePipeline [\<lparr>m_role = AI, m_text = planReply (js ''x'' @ [nl] @ js ''1. Evil'' @ dash_sep @ js ''X'')\<rparr>] =
     Inr (Some
       [\<lparr> s_name = js ''Evil'', s_status = Running, s_llm = [0x58, rdquo, 0x3A],
           s_progress = None, s_duration = None \<rparr>,
        \<lparr> s_name = js ''Ingest Inputs'', s_status = Queued, s_llm = js ''GPT-4'',
           s_progress = None, s_duration = None \<rparr>,
        \<lparr> s_name = js ''Plan & Branch'', s_status = Queued, s_llm = js ''Claude Sonnet 4.5'',
           s_progress = None, s_duration = None \<rparr>,
        \<lparr> s_name = js ''Execute Tools'', s_status = Queued, s_llm = js ''Kimi K2'',
           s_progress = None, s_duration = None \<rparr>,
        \<lparr> s_name = js ''Verify & Report'', s_status = Queued, s_llm = js ''GPT-4'',
           s_progress = None, s_duration = None \<rparr>])
   \<and> derivePipeline [\<lparr>m_role = AI, m_text = planReply (js ''x'' @ [nl] @ js ''1. Evil'' @ dash_sep @ js ''X'')\<rparr>] \<noteq>
     Inr (Some
       [\<lparr> s_name = js ''Ingest Inputs'', s_status = Running, s_llm = js ''GPT-4'',
           s_progress = None, s_duration = None \<rparr>,
        \<lparr> s_name = js ''Plan & Branch'', s_status = Queued, s_llm = js ''Claude Sonnet 4.5'',
           s_progress = None, s_duration = None \<rparr>,
        \<lparr> s_name = js ''Execute Tools'', s_status = Queued, s_llm = js ''Kimi K2'',
           s_progress = None, s_duration = None \<rparr>,
        \<lparr> s_name = js ''Verify & Report'', s_status = Queued, s_llm = js ''GPT-4'',
           s_progress = None, s_duration = None \<rparr>])"
  by (simp add: derivePipeline_def planReply_shape test_1dot_def parse_line_def split_def trim_def
      is_space_def is_digit_def js_def dash_sep_def em_dash_def nl_def ldquo_def rdquo_def)

section \<open>Parsing a plan line\<close>

text \<open>A line with a \<open>'. '\<close> is parsed without an error, and one without the separator gets the default label.\<close>

lemma parse_line_with_rest:
  assumes "split l (js ''. '') = idxRest # rest # others"
  shows "\<exists>s. parse_line l = Inr s"
    and "split rest dash_sep = [namePart] \<Longrightarrow>
         parse_line l = Inr \<lparr> s_name = trim namePart, s_status = Queued, s_llm = js ''GPT-4'',
                                 s_progress = None, s_duration = None \<rparr>"
proof -
  have "split rest dash_sep \<noteq> []"
    by (simp add: split_def dash_sep_def split_go_nonempty)
  then show "\<exists>s. parse_line l = Inr s"
    using assms by (cases "split rest dash_sep") (simp_all add: parse_line_def)
  have "trim (js ''GPT-4'') = js ''GPT-4''"
    by (simp add: trim_def js_def is_space_def)
  then show "parse_line l = Inr \<lparr> s_name = trim namePart, s_status = Queued, s_llm = js ''GPT-4'',
                                 s_progress = None, s_duration = None \<rparr>"
    if "split rest dash_sep = [namePart]"
    using assms that by (simp add: parse_line_def)
qed

text \<open>
  C6. \<open>l.split('. ')\<close> cuts the line at every \<open>'. '\<close> and \<open>rest\<close> is the second
  piece only: on a line whose rest holds another \<open>'. '\<close> the step's name stops there
  and the label after the separator is lost, where the specification's parse keeps the
  whole rest and the label. The two examples of the specification evaluate as it says.
\<close>

theorem derivePipeline_truncates_rest:
  "derivePipeline [\<lparr>m_role = AI, m_text = js ''1. Deploy v2. Then test'' @ dash_sep @ js ''Kimi K2''\<rparr>] =
     Inr (Some [\<lparr> s_name = js ''Deploy v2'', s_status = Running, s_llm = js ''GPT-4'',
                  s_progress = None, s_duration = None \<rparr>])
   \<and> spec_derive_text (js ''1. Deploy v2. Then test'' @ dash_sep @ js ''Kimi K2'') =
       [\<lparr> s_name = js ''Deploy v2. Then test'', s_status = Running, s_llm = js ''Kimi K2'',
           s_progress = None, s_duration = None \<rparr>]
   \<and> derivePipeline [\<lparr>m_role = AI, m_text = js ''1. Ingest Inputs'' @ dash_sep @ js ''GPT-4'' @ [nl]
                        @ js ''2. Plan & Branch'' @ dash_sep @ js ''Claude Sonnet 4.5''\<rparr>] =
       Inr (Some [\<lparr> s_name = js ''Ingest Inputs'', s_status = Running, s_llm = js ''GPT-4'',
                    s_progress = None, s_duration = None \<rparr>,
                  \<lparr> s_name = js ''Plan & Branch'', s_status = Queued, s_llm = js ''Claude Sonnet 4.5'',
                    s_progress = None, s_duration = None \<rparr>])
   \<and> derivePipeline [\<lparr>m_role = AI, m_text = js ''1. Collect Data''\<rparr>] =
       Inr (Some [\<lparr> s_name = js ''Collect Data'', s_status = Running, s_llm = js ''GPT-4'',
                    s_progress = None, s_duration = None \<rparr>])"
proof -
  have code: "derivePipeline [\<lparr>m_role = AI, m_text = js ''1. Deploy v2. Then test'' @ dash_sep @ js ''Kimi K2''\<rparr>] =
     Inr (Some [\<lparr> s_name = js ''Deploy v2'', s_status = Running, s_llm = js ''GPT-4'',
                  s_progress = None, s_duration = None \<rparr>])"
    by (simp add: derivePipeline_def test_1dot_def parse_line_def split_def trim_def
        is_space_def is_digit_def js_def dash_sep_def em_dash_def nl_def)
  have spec: "spec_derive_text (js ''1. Deploy v2. Then test'' @ dash_sep @ js ''Kimi K2'') =
       [\<lparr> s_name = js ''Deploy v2. Then test'', s_status = Running, s_llm = js ''Kimi K2'',
           s_progress = None, s_duration = None \<rparr>]"
    by (simp add: spec_derive_text_def spec_step_of_rest_def spec_line_rest_def
        split_def trim_def is_space_def is_digit_def js_def dash_sep_def em_dash_def nl_def)
  have two: "derivePipeline [\<lparr>m_role = AI, m_text = js ''1. Ingest Inputs'' @ dash_sep @ js ''GPT-4'' @ [nl]
                        @ js ''2. Plan & Branch'' @ dash_sep @ js ''Claude Sonnet 4.5''\<rparr>] =
       Inr (Some [\<lparr> s_name = js ''Ingest Inputs'', s_status = Running, s_llm = js ''GPT-4'',
                    s_progress = None, s_duration = None \<rparr>,
                  \<lparr> s_name = js ''Plan & Branch'', s_status = Queued, s_llm = js ''Claude Sonnet 4.5'',
                    s_progress = None, s_duration = None \<rparr>])"
    by (simp add: derivePipeline_def test_1dot_def parse_line_def split_def trim_def
        is_space_def is_digit_def js_def dash_sep_def em_dash_def nl_def)
  have one: "derivePipeline [\<lparr>m_role = AI, m_text = js ''1. Collect Data''\<rparr>] =
       Inr (Some [\<lparr> s_name = js ''Collect Data'', s_status = Running, s_llm = js ''GPT-4'',
                    s_progress = None, s_duration = None \<rparr>])"
    by (simp add: derivePipeline_def test_1dot_def parse_line_def split_def trim_def
        is_space_def is_digit_def js_def dash_sep_def em_dash_def nl_def)
  from code spec two one show ?thesis
    by simp
qed

end
